theory Spec2Isabelle
  imports Main "HOL-Library.Multiset"
begin

section \<open>Errors and messages\<close>

text \<open>
  Go's \<^verbatim>\<open>error\<close> interface value is modelled as \<open>error option\<close>: \<open>None\<close> is
  \<^verbatim>\<open>nil\<close>. The three ways the package builds an error are the constructors:
  \<^verbatim>\<open>fmt.Errorf\<close> without \<^verbatim>\<open>%w\<close> (a plain message), \<^verbatim>\<open>fmt.Errorf\<close> with \<^verbatim>\<open>%w\<close>
  (a message and the wrapped error) and the struct \<^verbatim>\<open>NotificationError\<close> with its fields
  Provider, Message and Err.
\<close>

datatype error =
    ErrorString string
  | WrapError string error
  | NotificationError string string "error option"

fun Error_str :: "error \<Rightarrow> string" where
  "Error_str (ErrorString s) = s"
| "Error_str (WrapError s e) = s"
| "Error_str (NotificationError p msg None) = p @ '' notification error: '' @ msg"
| "Error_str (NotificationError p msg (Some e)) =
     p @ '' notification error: '' @ msg @ '' - '' @ Error_str e"

fun Unwrap :: "error \<Rightarrow> error option" where
  "Unwrap (ErrorString s) = None"
| "Unwrap (WrapError s e) = Some e"
| "Unwrap (NotificationError p msg e) = e"

text \<open>\<^verbatim>\<open>fmt.Errorf("%s: %w", name, err)\<close>, the tag the synchronous broadcast puts on a failure.\<close>

definition Errorf_tagged :: "string \<Rightarrow> error \<Rightarrow> error" where
  "Errorf_tagged name err = WrapError (name @ '': '' @ Error_str err) err"

text \<open>The errors of the registry and of the lookup, as \<^verbatim>\<open>fmt.Errorf\<close> builds them.\<close>

definition nil_notifier_error :: error where
  "nil_notifier_error = ErrorString ''notifier cannot be nil''"

definition already_registered_error :: "string \<Rightarrow> error" where
  "already_registered_error name =
     ErrorString (''notifier with name '' @ name @ '' already registered'')"

definition not_found_error :: "string \<Rightarrow> error" where
  "not_found_error provider = ErrorString (''notifier '' @ provider @ '' not found'')"

text \<open>
  A \<^verbatim>\<open>context.Context\<close> is opaque to the manager, which hands it to the provider as it
  got it.
\<close>

datatype ctx = Background | Cancelled

text \<open>The value of a \<^verbatim>\<open>map[string]interface{}\<close> entry; no code of the package reads one.\<close>

datatype any_value = AnyString string | AnyInt int | AnyBool bool

record Field =
  Title :: string
  Value :: string
  Short :: bool

record Attachment =
  Title :: string
  Text :: string
  ImageURL :: string
  Color :: string
  Fields :: "Field list"
  Footer :: string
  FooterIcon :: string

record Message =
  Text :: string
  Title :: string
  Priority :: string
  Channel :: string
  Attachments :: "Attachment list"
  Metadata :: "string \<rightharpoonup> any_value"

definition PriorityHigh :: string where "PriorityHigh = ''high''"
definition PriorityNormal :: string where "PriorityNormal = ''normal''"
definition PriorityLow :: string where "PriorityLow = ''low''"

section \<open>The provider interface\<close>

text \<open>
  A provider is a value of the interface \<^verbatim>\<open>Notifier\<close>: its three methods. What a send does
  outside the manager (the network, the fields of a mock) is a state \<open>'w\<close> that each call
  reads and returns updated, together with the error it returns.
\<close>

record 'w Notifier =
  Send :: "ctx \<Rightarrow> string \<Rightarrow> 'w \<Rightarrow> error option \<times> 'w"
  SendWithOptions :: "ctx \<Rightarrow> Message \<Rightarrow> 'w \<Rightarrow> error option \<times> 'w"
  Name :: string

text \<open>
  \<^verbatim>\<open>NotificationResult\<close>, the value a concurrent broadcast puts on its channel.
\<close>

record NotificationResult =
  Provider :: string
  Success :: bool
  Error :: "error option"

section \<open>The manager\<close>

text \<open>
  \<^verbatim>\<open>sync.RWMutex\<close>, as far as one call at a time sees it: the number of read locks held
  and whether the write lock is held. Each operation below is one call running alone, so
  no acquisition waits.
\<close>

record RWMutex =
  readers :: int
  writer :: bool

definition unlocked :: RWMutex where
  "unlocked = \<lparr>readers = 0, writer = False\<rparr>"

definition is_held :: "RWMutex \<Rightarrow> bool" where
  "is_held l \<longleftrightarrow> readers l \<noteq> 0 \<or> writer l"

record 'w Manager =
  notifiers :: "string \<rightharpoonup> 'w Notifier"
  mu :: RWMutex

definition NewManager :: "'w Manager" where
  "NewManager = \<lparr>notifiers = Map.empty, mu = unlocked\<rparr>"

definition Lock :: "'w Manager \<Rightarrow> 'w Manager" where
  "Lock m = m\<lparr>mu := (mu m)\<lparr>writer := True\<rparr>\<rparr>"

definition Unlock :: "'w Manager \<Rightarrow> 'w Manager" where
  "Unlock m = m\<lparr>mu := (mu m)\<lparr>writer := False\<rparr>\<rparr>"

definition RLock :: "'w Manager \<Rightarrow> 'w Manager" where
  "RLock m = m\<lparr>mu := (mu m)\<lparr>readers := readers (mu m) + 1\<rparr>\<rparr>"

definition RUnlock :: "'w Manager \<Rightarrow> 'w Manager" where
  "RUnlock m = m\<lparr>mu := (mu m)\<lparr>readers := readers (mu m) - 1\<rparr>\<rparr>"

text \<open>
  A provider call as the program makes it: the send runs on the outside state, and the
  call is written to a log with the key it was made under, the error it returned and the
  state of the registry lock at that moment. The log is how the theorems below count calls and
  see which lock a call ran under.
\<close>

record call =
  callee :: string
  outcome :: "error option"
  lock_at_call :: RWMutex

record 'w env =
  world :: 'w
  calls :: "call list"

definition invoke ::
  "RWMutex \<Rightarrow> string \<Rightarrow> ('w \<Rightarrow> error option \<times> 'w) \<Rightarrow> 'w env \<Rightarrow> error option \<times> 'w env" where
  "invoke l name f e =
     (case f (world e) of
        (err, w') \<Rightarrow>
          (err, \<lparr>world = w',
                 calls = calls e @ [\<lparr>callee = name, outcome = err, lock_at_call = l\<rparr>]\<rparr>))"

subsection \<open>Ranging over a map\<close>

text \<open>
  Go's \<^verbatim>\<open>for k, v := range m\<close> visits every entry of the map once, in an order the
  language leaves open. The order is a parameter \<open>ks\<close> of each function that ranges, and
  \<open>range_order m ks\<close> says that \<open>ks\<close> is one of the orders Go may choose.
\<close>

definition range_order :: "('k \<rightharpoonup> 'v) \<Rightarrow> 'k list \<Rightarrow> bool" where
  "range_order m ks \<longleftrightarrow> distinct ks \<and> set ks = dom m"

fun range_entries :: "('k \<rightharpoonup> 'v) \<Rightarrow> 'k list \<Rightarrow> ('k \<times> 'v) list" where
  "range_entries m [] = []"
| "range_entries m (k # ks) =
     (case m k of
        None \<Rightarrow> range_entries m ks
      | Some v \<Rightarrow> (k, v) # range_entries m ks)"

subsection \<open>Registry\<close>

text \<open>
  The argument of \<^verbatim>\<open>Register\<close> is an interface value: \<open>None\<close> is Go's nil interface, the
  only value for which \<^verbatim>\<open>notifier == nil\<close> holds, and \<open>Some n\<close> is an interface value that
  holds a pointer of a provider type, with \<open>n\<close> its methods. The pointer held may itself be
  nil: see \<open>Slack_interface\<close> and \<open>Telegram_interface\<close> below.
\<close>

definition Register :: "'w Manager \<Rightarrow> 'w Notifier option \<Rightarrow> error option \<times> 'w Manager" where
  "Register m notifier =
     (case notifier of
        None \<Rightarrow> (Some nil_notifier_error, m)
      | Some n \<Rightarrow>
          (let m1 = Lock m;
               name = Name n
           in if notifiers m1 name \<noteq> None
              then (Some (already_registered_error name), Unlock m1)
              else (None, Unlock (m1\<lparr>notifiers := (notifiers m1)(name \<mapsto> n)\<rparr>))))"

definition Unregister :: "'w Manager \<Rightarrow> string \<Rightarrow> 'w Manager" where
  "Unregister m name =
     (let m1 = Lock m
      in Unlock (m1\<lparr>notifiers := (notifiers m1)(name := None)\<rparr>))"

definition Get :: "'w Manager \<Rightarrow> string \<Rightarrow> 'w Notifier option \<times> 'w Manager" where
  "Get m name =
     (let m1 = RLock m;
          notifier = notifiers m1 name
      in (notifier, RUnlock m1))"

fun List_loop :: "(string \<times> 'v) list \<Rightarrow> string list \<Rightarrow> string list" where
  "List_loop [] names = names"
| "List_loop ((name, v) # rest) names = List_loop rest (names @ [name])"

definition List :: "'w Manager \<Rightarrow> string list \<Rightarrow> string list \<times> 'w Manager" where
  "List m ks =
     (let m1 = RLock m;
          names = List_loop (range_entries (notifiers m1) ks) []
      in (names, RUnlock m1))"

subsection \<open>Targeted send\<close>

definition Manager_Send ::
  "'w Manager \<Rightarrow> ctx \<Rightarrow> string \<Rightarrow> string \<Rightarrow> 'w env \<Rightarrow> error option \<times> 'w Manager \<times> 'w env" where
  "Manager_Send m c provider message e =
     (case Get m provider of
        (None, m') \<Rightarrow> (Some (not_found_error provider), m', e)
      | (Some notifier, m') \<Rightarrow>
          (case invoke (mu m') provider (Send notifier c message) e of
             (err, e') \<Rightarrow> (err, m', e')))"

definition Manager_SendWithOptions ::
  "'w Manager \<Rightarrow> ctx \<Rightarrow> string \<Rightarrow> Message \<Rightarrow> 'w env \<Rightarrow> error option \<times> 'w Manager \<times> 'w env" where
  "Manager_SendWithOptions m c provider msg e =
     (case Get m provider of
        (None, m') \<Rightarrow> (Some (not_found_error provider), m', e)
      | (Some notifier, m') \<Rightarrow>
          (case invoke (mu m') provider (SendWithOptions notifier c msg) e of
             (err, e') \<Rightarrow> (err, m', e')))"

subsection \<open>Synchronous broadcast\<close>

text \<open>
  The loop of \<^verbatim>\<open>Broadcast\<close> over the entries in range order: \<open>errors\<close> is the slice built
  so far. The read lock taken at entry is released by the deferred \<^verbatim>\<open>RUnlock\<close>, after
  the loop.
\<close>

fun Broadcast_loop ::
  "RWMutex \<Rightarrow> ctx \<Rightarrow> string \<Rightarrow> (string \<times> 'w Notifier) list \<Rightarrow> error list \<Rightarrow> 'w env
     \<Rightarrow> error list \<times> 'w env" where
  "Broadcast_loop l c message [] errors e = (errors, e)"
| "Broadcast_loop l c message ((name, notifier) # rest) errors e =
     (case invoke l name (Send notifier c message) e of
        (None, e') \<Rightarrow> Broadcast_loop l c message rest errors e'
      | (Some err, e') \<Rightarrow>
          Broadcast_loop l c message rest (errors @ [Errorf_tagged name err]) e')"

definition Broadcast ::
  "'w Manager \<Rightarrow> string list \<Rightarrow> ctx \<Rightarrow> string \<Rightarrow> 'w env \<Rightarrow> error list \<times> 'w Manager \<times> 'w env" where
  "Broadcast m ks c message e =
     (let m1 = RLock m
      in case Broadcast_loop (mu m1) c message (range_entries (notifiers m1) ks) [] e of
           (errors, e') \<Rightarrow> (errors, RUnlock m1, e'))"

fun BroadcastWithOptions_loop ::
  "RWMutex \<Rightarrow> ctx \<Rightarrow> Message \<Rightarrow> (string \<times> 'w Notifier) list \<Rightarrow> error list \<Rightarrow> 'w env
     \<Rightarrow> error list \<times> 'w env" where
  "BroadcastWithOptions_loop l c msg [] errors e = (errors, e)"
| "BroadcastWithOptions_loop l c msg ((name, notifier) # rest) errors e =
     (case invoke l name (SendWithOptions notifier c msg) e of
        (None, e') \<Rightarrow> BroadcastWithOptions_loop l c msg rest errors e'
      | (Some err, e') \<Rightarrow>
          BroadcastWithOptions_loop l c msg rest (errors @ [Errorf_tagged name err]) e')"

definition BroadcastWithOptions ::
  "'w Manager \<Rightarrow> string list \<Rightarrow> ctx \<Rightarrow> Message \<Rightarrow> 'w env \<Rightarrow> error list \<times> 'w Manager \<times> 'w env" where
  "BroadcastWithOptions m ks c msg e =
     (let m1 = RLock m
      in case BroadcastWithOptions_loop (mu m1) c msg (range_entries (notifiers m1) ks) [] e of
           (errors, e') \<Rightarrow> (errors, RUnlock m1, e'))"

section \<open>Concurrent broadcast\<close>

text \<open>
  \<^verbatim>\<open>BroadcastAsync\<close> copies the registry under the read lock, makes a channel with room
  for one result per copied entry, and starts one goroutine per entry and one more that
  waits for them and closes the channel. The goroutines, the channel, the wait group and
  the caller's \<^verbatim>\<open>for result := range resultChan\<close> are a state, and one step of any of
  them is a step of the relation \<open>async_step\<close>: every interleaving Go may choose is a
  sequence of steps.
\<close>

text \<open>
  Go panics on a send on a closed channel and on a wait group counter that falls below
  zero; a panic ends the program, so no step leaves a state that has panicked. A send on
  the channel waits while the buffer is full, and \<^verbatim>\<open>wg.Wait\<close> returns when the counter is
  zero. A provider's send is one step: it returns an error or none and leaves a
  new outside state.
\<close>

text \<open>
  Where a sending goroutine stands: before \<^verbatim>\<open>nt.Send\<close>, after it with the error it
  returned, after the send on the channel (the deferred \<^verbatim>\<open>wg.Done\<close> still to run), or
  finished.
\<close>

datatype unit_pc = Running | Returned "error option" | Sent | Finished

record 'w sender =
  unit_n :: string
  unit_nt :: "'w Notifier"
  pc :: unit_pc

text \<open>
  The closing goroutine: not yet started, in \<^verbatim>\<open>wg.Wait\<close>, or past \<^verbatim>\<open>close(resultChan)\<close>.
\<close>

datatype closer_pc = NotStarted | Waiting | Closed

record 'w async =
  unit_body :: "'w Notifier \<Rightarrow> 'w \<Rightarrow> error option \<times> 'w"
  spawning :: "(string \<times> 'w Notifier) list"
  units :: "'w sender list"
  wg :: int
  closer :: closer_pc
  chan :: "NotificationResult list"
  chan_cap :: nat
  chan_closed :: bool
  panicked :: bool
  received :: "NotificationResult list"
  range_ended :: bool
  outside :: 'w

inductive async_step :: "'w async \<Rightarrow> 'w async \<Rightarrow> bool" where
  spawn:
    "\<not> panicked s \<Longrightarrow> spawning s = (k, nt) # rest \<Longrightarrow>
     async_step s
       (s\<lparr>spawning := rest, wg := wg s + 1,
          units := units s @ [\<lparr>unit_n = k, unit_nt = nt, pc = Running\<rparr>]\<rparr>)"
| start_closer:
    "\<not> panicked s \<Longrightarrow> spawning s = [] \<Longrightarrow> closer s = NotStarted \<Longrightarrow>
     async_step s (s\<lparr>closer := Waiting\<rparr>)"
| send:
    "\<not> panicked s \<Longrightarrow> units s = us @ u # vs \<Longrightarrow> pc u = Running \<Longrightarrow>
     unit_body s (unit_nt u) (outside s) = (err, w') \<Longrightarrow>
     async_step s (s\<lparr>units := us @ u\<lparr>pc := Returned err\<rparr> # vs, outside := w'\<rparr>)"
| push:
    "\<not> panicked s \<Longrightarrow> units s = us @ u # vs \<Longrightarrow> pc u = Returned err \<Longrightarrow>
     \<not> chan_closed s \<Longrightarrow> length (chan s) < chan_cap s \<Longrightarrow>
     async_step s
       (s\<lparr>units := us @ u\<lparr>pc := Sent\<rparr> # vs,
          chan := chan s @ [\<lparr>Provider = unit_n u, Success = (err = None), Error = err\<rparr>]\<rparr>)"
| push_closed:
    "\<not> panicked s \<Longrightarrow> units s = us @ u # vs \<Longrightarrow> pc u = Returned err \<Longrightarrow>
     chan_closed s \<Longrightarrow>
     async_step s (s\<lparr>panicked := True\<rparr>)"
| wg_done:
    "\<not> panicked s \<Longrightarrow> units s = us @ u # vs \<Longrightarrow> pc u = Sent \<Longrightarrow>
     async_step s
       (s\<lparr>units := us @ u\<lparr>pc := Finished\<rparr> # vs, wg := wg s - 1,
          panicked := (wg s - 1 < 0)\<rparr>)"
| close_chan:
    "\<not> panicked s \<Longrightarrow> closer s = Waiting \<Longrightarrow> wg s = 0 \<Longrightarrow>
     async_step s (s\<lparr>closer := Closed, chan_closed := True\<rparr>)"
| recv:
    "\<not> panicked s \<Longrightarrow> closer s \<noteq> NotStarted \<Longrightarrow> \<not> range_ended s \<Longrightarrow> chan s = r # rs \<Longrightarrow>
     async_step s (s\<lparr>chan := rs, received := received s @ [r]\<rparr>)"
| recv_closed:
    "\<not> panicked s \<Longrightarrow> closer s \<noteq> NotStarted \<Longrightarrow> \<not> range_ended s \<Longrightarrow> chan s = [] \<Longrightarrow>
     chan_closed s \<Longrightarrow>
     async_step s (s\<lparr>range_ended := True\<rparr>)"

text \<open>The loop that copies the registry into the local map \<^verbatim>\<open>notifiers\<close>.\<close>

fun copy_loop :: "(string \<times> 'v) list \<Rightarrow> (string \<rightharpoonup> 'v) \<Rightarrow> (string \<rightharpoonup> 'v)" where
  "copy_loop [] snap = snap"
| "copy_loop ((k, v) # rest) snap = copy_loop rest (snap(k \<mapsto> v))"

text \<open>
  The state in which \<^verbatim>\<open>BroadcastAsync\<close> enters its second loop, the one that starts the
  goroutines: \<open>ks\<close> is the range order of the copy loop and \<open>ks'\<close> that of the second
  loop. The function hands the channel to its caller once the closing goroutine is started.
\<close>

definition async_start ::
  "('w Notifier \<Rightarrow> 'w \<Rightarrow> error option \<times> 'w) \<Rightarrow> (string \<rightharpoonup> 'w Notifier) \<Rightarrow> string list \<Rightarrow> 'w
     \<Rightarrow> 'w async" where
  "async_start f snap ks' w =
     \<lparr>unit_body = f, spawning = range_entries snap ks', units = [], wg = 0, closer = NotStarted,
      chan = [], chan_cap = card (dom snap), chan_closed = False, panicked = False,
      received = [], range_ended = False, outside = w\<rparr>"

definition BroadcastAsync ::
  "'w Manager \<Rightarrow> string list \<Rightarrow> string list \<Rightarrow> ctx \<Rightarrow> string \<Rightarrow> 'w \<Rightarrow> 'w async \<times> 'w Manager" where
  "BroadcastAsync m ks ks' c message w =
     (let m1 = RLock m;
          snap = copy_loop (range_entries (notifiers m1) ks) Map.empty;
          m2 = RUnlock m1
      in (async_start (\<lambda>nt. Send nt c message) snap ks' w, m2))"

definition BroadcastAsyncWithOptions ::
  "'w Manager \<Rightarrow> string list \<Rightarrow> string list \<Rightarrow> ctx \<Rightarrow> Message \<Rightarrow> 'w \<Rightarrow> 'w async \<times> 'w Manager" where
  "BroadcastAsyncWithOptions m ks ks' c msg w =
     (let m1 = RLock m;
          snap = copy_loop (range_entries (notifiers m1) ks) Map.empty;
          m2 = RUnlock m1
      in (async_start (\<lambda>nt. SendWithOptions nt c msg) snap ks' w, m2))"

text \<open>
  A number that every step makes smaller: no interleaving runs forever.
\<close>

fun pc_weight :: "unit_pc \<Rightarrow> nat" where
  "pc_weight Running = 4"
| "pc_weight (Returned err) = 3"
| "pc_weight Sent = 1"
| "pc_weight Finished = 0"

fun closer_weight :: "closer_pc \<Rightarrow> nat" where
  "closer_weight NotStarted = 2"
| "closer_weight Waiting = 1"
| "closer_weight Closed = 0"

definition steps_left :: "'w async \<Rightarrow> nat" where
  "steps_left s =
     (if panicked s then 0 else 1) + 5 * length (spawning s)
     + sum_list (map (\<lambda>u. pc_weight (pc u)) (units s))
     + closer_weight (closer s) + length (chan s) + (if range_ended s then 0 else 1)"

subsection \<open>One interleaving, as a function\<close>

text \<open>
  One of the schedules: start every goroutine, then run the senders one after the other in
  the order they were started, each to its end, then let the closing goroutine close the
  channel, then let the caller read. \<open>sched\<close> is the next state under this schedule
  (\<open>None\<close> when nothing can move) and \<open>run n\<close> takes \<open>n\<close> such steps.
\<close>

definition sched :: "'w async \<Rightarrow> 'w async option" where
  "sched s =
     (if panicked s then None
      else case spawning s of
        (k, nt) # rest \<Rightarrow>
          Some (s\<lparr>spawning := rest, wg := wg s + 1,
                  units := units s @ [\<lparr>unit_n = k, unit_nt = nt, pc = Running\<rparr>]\<rparr>)
      | [] \<Rightarrow>
          if closer s = NotStarted then Some (s\<lparr>closer := Waiting\<rparr>)
          else
            (let us = takeWhile (\<lambda>u. pc u = Finished) (units s)
             in case dropWhile (\<lambda>u. pc u = Finished) (units s) of
                  u # vs \<Rightarrow>
                    (case pc u of
                       Running \<Rightarrow>
                         (case unit_body s (unit_nt u) (outside s) of
                            (err, w') \<Rightarrow>
                              Some (s\<lparr>units := us @ u\<lparr>pc := Returned err\<rparr> # vs, outside := w'\<rparr>))
                     | Returned err \<Rightarrow>
                         if chan_closed s then Some (s\<lparr>panicked := True\<rparr>)
                         else if length (chan s) < chan_cap s
                         then Some (s\<lparr>units := us @ u\<lparr>pc := Sent\<rparr> # vs,
                                      chan := chan s @ [\<lparr>Provider = unit_n u,
                                                          Success = (err = None),
                                                          Error = err\<rparr>]\<rparr>)
                         else None
                     | Sent \<Rightarrow>
                         Some (s\<lparr>units := us @ u\<lparr>pc := Finished\<rparr> # vs, wg := wg s - 1,
                                 panicked := (wg s - 1 < 0)\<rparr>)
                     | Finished \<Rightarrow> None)
                | [] \<Rightarrow>
                    if closer s = Waiting
                    then (if wg s = 0 then Some (s\<lparr>closer := Closed, chan_closed := True\<rparr>)
                          else None)
                    else if range_ended s then None
                    else
                      (case chan s of
                         r # rs \<Rightarrow> Some (s\<lparr>chan := rs, received := received s @ [r]\<rparr>)
                       | [] \<Rightarrow> if chan_closed s then Some (s\<lparr>range_ended := True\<rparr>) else None)))"

fun run :: "nat \<Rightarrow> 'w async \<Rightarrow> 'w async" where
  "run 0 s = s"
| "run (Suc n) s = (case sched s of None \<Rightarrow> s | Some s' \<Rightarrow> run n s')"

section \<open>The Slack provider\<close>

text \<open>
  The values of the package \<^verbatim>\<open>slack-go/slack\<close> that \<^verbatim>\<open>SendWithOptions\<close> builds: text
  objects, the two blocks it uses, attachments with their fields, and message options. An
  attachment lists Title, Text, ImageURL, Color, Footer, FooterIcon and Fields; a field
  lists Title, Value and Short.
\<close>

datatype TextBlockObject = NewTextBlockObject string string bool bool

datatype Block = NewHeaderBlock TextBlockObject | NewSectionBlock TextBlockObject

datatype slack_AttachmentField = slack_AttachmentField string string bool

datatype slack_Attachment =
  slack_Attachment string string string string string string "slack_AttachmentField list"

datatype MsgOption =
    MsgOptionText string bool
  | MsgOptionUsername string
  | MsgOptionIconEmoji string
  | MsgOptionAttachments "slack_Attachment list"
  | MsgOptionBlocks "Block list"

text \<open>
  A \<^verbatim>\<open>*slack.Client\<close> is what its \<^verbatim>\<open>PostMessageContext\<close> does with a context, a channel and
  the options: the error it returns and the new outside state. The package is not part of
  this repository, so the client is a parameter.
\<close>

type_synonym 'w slack_Client = "ctx \<Rightarrow> string \<Rightarrow> MsgOption list \<Rightarrow> 'w \<Rightarrow> error option \<times> 'w"

record 'w SlackNotifier =
  client :: "'w slack_Client option"
  defaultChannel :: string
  username :: string
  iconEmoji :: string

record SlackConfig =
  Token :: string
  DefaultChannel :: string
  Username :: string
  IconEmoji :: string
  WebhookURL :: string

text \<open>
  A constructor returns a pointer and an error: the nil pointer (\<open>None\<close>) together with the
  error, or a notifier and no error.
\<close>

definition NewSlackNotifier ::
  "(string \<Rightarrow> 'w slack_Client) \<Rightarrow> SlackConfig \<Rightarrow> 'w SlackNotifier option \<times> error option" where
  "NewSlackNotifier slack_New config =
     (if Token config = [] \<and> WebhookURL config = []
      then (None,
            Some (NotificationError ''slack'' ''either token or webhook URL is required'' None))
      else (Some \<lparr>client = (if Token config \<noteq> [] then Some (slack_New (Token config))
                                else None),
                      defaultChannel = DefaultChannel config,
                      username = Username config,
                      iconEmoji = IconEmoji config\<rparr>,
            None))"

definition convertFields :: "Field list \<Rightarrow> slack_AttachmentField list" where
  "convertFields fs =
     map (\<lambda>field. slack_AttachmentField (Field.Title field) (Value field) (Short field)) fs"

definition convertAttachments :: "Attachment list \<Rightarrow> slack_Attachment list" where
  "convertAttachments attachments =
     map (\<lambda>att. slack_Attachment (Attachment.Title att) (Attachment.Text att) (ImageURL att)
                  (Color att) (Footer att) (FooterIcon att)
                  (if length (Fields att) > 0 then convertFields (Fields att) else []))
       attachments"

definition Slack_SendWithOptions ::
  "'w SlackNotifier \<Rightarrow> ctx \<Rightarrow> Message \<Rightarrow> 'w \<Rightarrow> error option \<times> 'w" where
  "Slack_SendWithOptions s c msg w =
     (case SlackNotifier.client s of
        None \<Rightarrow>
          (Some (NotificationError ''slack''
             ''slack client not initialized (webhook support not yet implemented for SendWithOptions)''
             None), w)
      | Some cl \<Rightarrow>
          if Message.Text msg = []
          then (Some (NotificationError ''slack'' ''message text is required'' None), w)
          else
            (let channel = (if Channel msg = [] then defaultChannel s else Channel msg)
             in if channel = []
                then (Some (NotificationError ''slack'' ''channel is required'' None), w)
                else
                  (let options0 = [MsgOptionText (Message.Text msg) False];
                       options1 = (if username s \<noteq> []
                                   then options0 @ [MsgOptionUsername (username s)]
                                   else options0);
                       options2 = (if iconEmoji s \<noteq> []
                                   then options1 @ [MsgOptionIconEmoji (iconEmoji s)]
                                   else options1);
                       options3 = (if length (Attachments msg) > 0
                                   then options2
                                        @ [MsgOptionAttachments (convertAttachments (Attachments msg))]
                                   else options2);
                       options4 =
                         (if Message.Title msg \<noteq> []
                          then tl (options3
                                 @ [MsgOptionBlocks
                                      [NewHeaderBlock
                                         (NewTextBlockObject ''plain_text'' (Message.Title msg)
                                            False False),
                                       NewSectionBlock
                                         (NewTextBlockObject ''mrkdwn'' (Message.Text msg)
                                            False False)]])
                          else options3)
                   in case cl c channel options4 w of
                        (None, w') \<Rightarrow> (None, w')
                      | (Some err, w') \<Rightarrow>
                          (Some (NotificationError ''slack'' ''failed to send message'' (Some err)),
                           w'))))"

text \<open>A \<^verbatim>\<open>Message\<close> literal that sets the text and the channel only.\<close>

definition text_message :: "string \<Rightarrow> string \<Rightarrow> Message" where
  "text_message message channel =
     \<lparr>Text = message, Title = [], Priority = [], Channel = channel, Attachments = [],
      Metadata = Map.empty\<rparr>"

definition Slack_Send :: "'w SlackNotifier \<Rightarrow> ctx \<Rightarrow> string \<Rightarrow> 'w \<Rightarrow> error option \<times> 'w" where
  "Slack_Send s c message w =
     Slack_SendWithOptions s c (text_message message (defaultChannel s)) w"

definition slack_notifier :: "'w SlackNotifier \<Rightarrow> 'w Notifier" where
  "slack_notifier s =
     \<lparr>Send = Slack_Send s, SendWithOptions = Slack_SendWithOptions s, Name = ''slack''\<rparr>"

text \<open>
  A \<^verbatim>\<open>*SlackNotifier\<close> passed where a \<^verbatim>\<open>Notifier\<close> is expected becomes an interface value
  that holds the pointer and its type. Go's \<^verbatim>\<open>nil\<close> interface holds neither, so the value
  made from a pointer is never the nil interface, not even when the pointer is nil.
  \<^verbatim>\<open>Name\<close> does not read its receiver: on the nil pointer it returns "slack" as on any
  other. \<^verbatim>\<open>Send\<close> and \<^verbatim>\<open>SendWithOptions\<close> read fields of the receiver, and on the nil
  pointer Go panics; a send here has no such result, so what the value made from the nil
  pointer does on a send is the parameter \<open>on_nil\<close>, of which only the registration is
  stated.
\<close>

definition Slack_interface :: "'w Notifier \<Rightarrow> 'w SlackNotifier option \<Rightarrow> 'w Notifier option" where
  "Slack_interface on_nil p =
     (case p of
        None \<Rightarrow> Some (on_nil\<lparr>Name := ''slack''\<rparr>)
      | Some s \<Rightarrow> Some (slack_notifier s))"

section \<open>The Telegram provider\<close>

text \<open>
  What \<^verbatim>\<open>sendRequest\<close> uses of Go's library: \<^verbatim>\<open>json.Marshal\<close> of the payload,
  \<^verbatim>\<open>http.NewRequestWithContext\<close>, the client made with a timeout of 30 seconds, \<^verbatim>\<open>io.ReadAll\<close> of the body, and
  \<^verbatim>\<open>json.Unmarshal\<close> into the struct with the fields Ok and Description. They are
  parameters: a request is the context, the method, the URL, the body and the headers set
  on it, and a response is its status code and what reading its body gives.
\<close>

record http_Request =
  req_ctx :: ctx
  req_method :: string
  req_url :: string
  req_body :: string
  req_header :: "(string \<times> string) list"

record http_Response =
  StatusCode :: int
  Body :: "error + string"

text \<open>An \<^verbatim>\<open>*http.Client\<close> is what its \<^verbatim>\<open>Do\<close> does with a request.\<close>

type_synonym 'w http_Client = "http_Request \<Rightarrow> 'w \<Rightarrow> (error + http_Response) \<times> 'w"

record 'w golib =
  json_Marshal :: "(string \<rightharpoonup> any_value) \<Rightarrow> error + string"
  http_NewRequestWithContext :: "ctx \<Rightarrow> string \<Rightarrow> string \<Rightarrow> string \<Rightarrow> error + http_Request"
  http_Client_30s :: "'w http_Client"
  json_Unmarshal :: "string \<Rightarrow> error + (bool \<times> string)"

record 'w TelegramNotifier =
  botToken :: string
  chatID :: string
  client :: "'w http_Client"
  parseMode :: string

record 'w TelegramConfig =
  BotToken :: string
  ChatID :: string
  ParseMode :: string
  HTTPClient :: "'w http_Client option"

definition NewTelegramNotifier ::
  "'w golib \<Rightarrow> 'w TelegramConfig \<Rightarrow> 'w TelegramNotifier option \<times> error option" where
  "NewTelegramNotifier lib config =
     (if BotToken config = []
      then (None, Some (NotificationError ''telegram'' ''bot token is required'' None))
      else if ChatID config = []
      then (None, Some (NotificationError ''telegram'' ''chat ID is required'' None))
      else (Some \<lparr>botToken = BotToken config, chatID = ChatID config,
                      client = (case HTTPClient config of
                                  None \<Rightarrow> http_Client_30s lib
                                | Some cl \<Rightarrow> cl),
                      parseMode = (if ParseMode config = [] then ''Markdown''
                                   else ParseMode config)\<rparr>,
            None))"

text \<open>\<^verbatim>\<open>%d\<close> of \<^verbatim>\<open>fmt.Sprintf\<close>: an integer in decimal.\<close>

definition digit_char :: "nat \<Rightarrow> char" where
  "digit_char d = char_of (48 + d)"

function string_of_nat :: "nat \<Rightarrow> string" where
  "string_of_nat n =
     (if n < 10 then [digit_char n] else string_of_nat (n div 10) @ [digit_char (n mod 10)])"
  by pat_completeness auto
termination
  by (relation "measure id") auto

definition string_of_int :: "int \<Rightarrow> string" where
  "string_of_int i = (if i < 0 then CHR ''-'' # string_of_nat (nat (- i)) else string_of_nat (nat i))"

definition sendRequest ::
  "'w golib \<Rightarrow> 'w TelegramNotifier \<Rightarrow> ctx \<Rightarrow> string \<Rightarrow> (string \<rightharpoonup> any_value) \<Rightarrow> 'w
     \<Rightarrow> error option \<times> 'w" where
  "sendRequest lib t c method payload w =
     (let url = ''https://api.telegram.org/bot'' @ botToken t @ ''/'' @ method
      in case json_Marshal lib payload of
           Inl err \<Rightarrow>
             (Some (NotificationError ''telegram'' ''failed to marshal request'' (Some err)), w)
         | Inr jsonData \<Rightarrow>
             (case http_NewRequestWithContext lib c ''POST'' url jsonData of
                Inl err \<Rightarrow>
                  (Some (NotificationError ''telegram'' ''failed to create request'' (Some err)), w)
              | Inr req \<Rightarrow>
                  (case TelegramNotifier.client t
                          (req\<lparr>req_header :=
                                 req_header req @ [(''Content-Type'', ''application/json'')]\<rparr>) w of
                     (Inl err, w') \<Rightarrow>
                       (Some (NotificationError ''telegram'' ''failed to send request'' (Some err)),
                        w')
                   | (Inr resp, w') \<Rightarrow>
                       (case Body resp of
                          Inl err \<Rightarrow>
                            (Some (NotificationError ''telegram'' ''failed to read response''
                                     (Some err)), w')
                        | Inr bytes \<Rightarrow>
                            if StatusCode resp \<noteq> 200
                            then (Some (NotificationError ''telegram''
                                          (''API request failed with status ''
                                           @ string_of_int (StatusCode resp) @ '': '' @ bytes)
                                          None), w')
                            else
                              (case json_Unmarshal lib bytes of
                                 Inl err \<Rightarrow>
                                   (Some (NotificationError ''telegram''
                                            ''failed to parse response'' (Some err)), w')
                               | Inr (ok, description) \<Rightarrow>
                                   if \<not> ok
                                   then (Some (NotificationError ''telegram''
                                                 (''API returned error: '' @ description) None),
                                         w')
                                   else (None, w'))))))"

definition Telegram_SendWithOptions ::
  "'w golib \<Rightarrow> 'w TelegramNotifier \<Rightarrow> ctx \<Rightarrow> Message \<Rightarrow> 'w \<Rightarrow> error option \<times> 'w" where
  "Telegram_SendWithOptions lib t c msg w =
     (if Message.Text msg = []
      then (Some (NotificationError ''telegram'' ''message text is required'' None), w)
      else
        (let chat = (if Channel msg = [] then chatID t else Channel msg);
             messageText = (if Message.Title msg \<noteq> []
                            then ''*'' @ Message.Title msg @ ''*'' @ [CHR 0x0A, CHR 0x0A]
                                 @ Message.Text msg
                            else Message.Text msg);
             payload0 = [''chat_id'' \<mapsto> AnyString chat, ''text'' \<mapsto> AnyString messageText,
                         ''parse_mode'' \<mapsto> AnyString (parseMode t)];
             payload = (if Priority msg = PriorityLow
                        then payload0(''disable_notification'' \<mapsto> AnyBool True)
                        else payload0)
         in sendRequest lib t c ''sendMessage'' payload w))"

definition Telegram_Send ::
  "'w golib \<Rightarrow> 'w TelegramNotifier \<Rightarrow> ctx \<Rightarrow> string \<Rightarrow> 'w \<Rightarrow> error option \<times> 'w" where
  "Telegram_Send lib t c message w =
     Telegram_SendWithOptions lib t c (text_message message (chatID t)) w"

definition telegram_notifier :: "'w golib \<Rightarrow> 'w TelegramNotifier \<Rightarrow> 'w Notifier" where
  "telegram_notifier lib t =
     \<lparr>Send = Telegram_Send lib t, SendWithOptions = Telegram_SendWithOptions lib t,
      Name = ''telegram''\<rparr>"

text \<open>The interface value made from a \<^verbatim>\<open>*TelegramNotifier\<close>, in the same way.\<close>

definition Telegram_interface ::
  "'w golib \<Rightarrow> 'w Notifier \<Rightarrow> 'w TelegramNotifier option \<Rightarrow> 'w Notifier option" where
  "Telegram_interface lib on_nil p =
     (case p of
        None \<Rightarrow> Some (on_nil\<lparr>Name := ''telegram''\<rparr>)
      | Some t \<Rightarrow> Some (telegram_notifier lib t))"

section \<open>Notions the statements use\<close>

text \<open>
  The errors a log of calls stands for: one error per failed call, in the order of the
  calls, each tagged with the key the call was made under.
\<close>

fun call_errors :: "call list \<Rightarrow> error list" where
  "call_errors [] = []"
| "call_errors (cl # cls) =
     (case outcome cl of
        None \<Rightarrow> call_errors cls
      | Some err \<Rightarrow> Errorf_tagged (callee cl) err # call_errors cls)"

text \<open>
  The calls a loop of sends over the keys \<open>ks\<close> of the registry \<open>reg\<close> has to make, from
  the outside state \<open>w\<close> to the outside state \<open>w'\<close>: one call per key, in order, each to
  the provider registered under its key, in the outside state the call before left; the
  call logged is under that key and with the error that send returned.
\<close>

inductive sent_in_order ::
  "(string \<rightharpoonup> 'w Notifier) \<Rightarrow> ('w Notifier \<Rightarrow> 'w \<Rightarrow> error option \<times> 'w) \<Rightarrow> string list \<Rightarrow> 'w
     \<Rightarrow> call list \<Rightarrow> 'w \<Rightarrow> bool" where
  no_key: "sent_in_order reg f [] w [] w"
| next_key:
    "reg k = Some nt \<Longrightarrow> f nt w = (err, w1) \<Longrightarrow> callee cl = k \<Longrightarrow> outcome cl = err \<Longrightarrow>
     sent_in_order reg f ks w1 cls w' \<Longrightarrow>
     sent_in_order reg f (k # ks) w (cl # cls) w'"

text \<open>
  The two loops of the synchronous broadcasts differ in the method they call only; this is
  their common shape, with the method as the parameter \<open>f\<close>.
\<close>

fun sends_loop ::
  "RWMutex \<Rightarrow> ('w Notifier \<Rightarrow> 'w \<Rightarrow> error option \<times> 'w) \<Rightarrow> (string \<times> 'w Notifier) list
     \<Rightarrow> error list \<Rightarrow> 'w env \<Rightarrow> error list \<times> 'w env" where
  "sends_loop l f [] errors e = (errors, e)"
| "sends_loop l f ((k, nt) # rest) errors e =
     (case invoke l k (f nt) e of
        (None, e') \<Rightarrow> sends_loop l f rest errors e'
      | (Some err, e') \<Rightarrow> sends_loop l f rest (errors @ [Errorf_tagged k err]) e')"

text \<open>
  A logged call \<open>cl\<close> that belongs to the entry \<open>kn\<close> of the registry: made under its key,
  with the lock in state \<open>l\<close>, and returning what the send \<open>f\<close> of its provider returns in
  some outside state that satisfies \<open>I\<close>.
\<close>

definition made_by ::
  "RWMutex \<Rightarrow> ('w Notifier \<Rightarrow> 'w \<Rightarrow> error option \<times> 'w) \<Rightarrow> ('w \<Rightarrow> bool) \<Rightarrow> call
     \<Rightarrow> string \<times> 'w Notifier \<Rightarrow> bool" where
  "made_by l f I cl kn \<longleftrightarrow>
     callee cl = fst kn \<and> lock_at_call cl = l
     \<and> (\<exists>w. I w \<and> outcome cl = fst (f (snd kn) w))"

text \<open>
  That the providers of \<open>reg\<close> in \<open>F\<close>, and only they, fail the send \<open>f\<close>: in every outside
  state that satisfies \<open>I\<close>, a condition the sends keep.
\<close>

definition fail_exactly ::
  "(string \<rightharpoonup> 'w Notifier) \<Rightarrow> ('w Notifier \<Rightarrow> 'w \<Rightarrow> error option \<times> 'w) \<Rightarrow> ('w \<Rightarrow> bool)
     \<Rightarrow> string set \<Rightarrow> bool" where
  "fail_exactly reg f I F \<longleftrightarrow>
     F \<subseteq> dom reg
     \<and> (\<forall>k nt w. reg k = Some nt \<and> I w
           \<longrightarrow> I (snd (f nt w)) \<and> ((fst (f nt w) \<noteq> None) = (k \<in> F)))"

text \<open>
  The senders whose \<^verbatim>\<open>wg.Done\<close> has not run, and those that have put their result on the
  channel.
\<close>

definition live :: "'w sender list \<Rightarrow> 'w sender list" where
  "live us = filter (\<lambda>u. pc u \<noteq> Finished) us"

definition pushed :: "'w sender list \<Rightarrow> 'w sender list" where
  "pushed us = filter (\<lambda>u. pc u = Sent \<or> pc u = Finished) us"

text \<open>
  What holds in every state a concurrent broadcast over the keys \<open>ks\<close> can reach.
\<close>

definition async_inv :: "string list \<Rightarrow> 'w async \<Rightarrow> bool" where
  "async_inv ks s \<longleftrightarrow>
     map unit_n (units s) @ map fst (spawning s) = ks
     \<and> wg s = int (length (live (units s)))
     \<and> mset (map Provider (received s @ chan s)) = mset (map unit_n (pushed (units s)))
     \<and> chan_cap s = length ks
     \<and> \<not> panicked s
     \<and> (closer s \<noteq> NotStarted \<longrightarrow> spawning s = [])
     \<and> (chan_closed s \<longleftrightarrow> closer s = Closed)
     \<and> (chan_closed s \<longrightarrow> (\<forall>u\<in>set (units s). pc u = Finished))
     \<and> (range_ended s \<longrightarrow> chan_closed s \<and> chan s = [])
     \<and> (\<forall>r\<in>set (received s @ chan s). Success r = (Error r = None))"

section \<open>The mock provider of the tests\<close>

text \<open>
  \<^verbatim>\<open>MockNotifier\<close> of the test file. A mock is used through a pointer and its sends write
  its fields, so the outside state is a store of mocks by address.
\<close>

record MockNotifier =
  name :: string
  sendCalled :: bool
  lastMessage :: string
  shouldFail :: bool

type_synonym mock_store = "nat \<Rightarrow> MockNotifier"

definition NewMockNotifier :: "string \<Rightarrow> MockNotifier" where
  "NewMockNotifier nm = \<lparr>name = nm, sendCalled = False, lastMessage = [], shouldFail = False\<rparr>"

definition Mock_Send :: "nat \<Rightarrow> ctx \<Rightarrow> string \<Rightarrow> mock_store \<Rightarrow> error option \<times> mock_store" where
  "Mock_Send a c message w =
     (let mk = (w a)\<lparr>sendCalled := True, lastMessage := message\<rparr>
      in (if shouldFail mk then Some (NotificationError (name mk) ''mock error'' None) else None,
          w(a := mk)))"

definition Mock_SendWithOptions ::
  "nat \<Rightarrow> ctx \<Rightarrow> Message \<Rightarrow> mock_store \<Rightarrow> error option \<times> mock_store" where
  "Mock_SendWithOptions a c msg w =
     (let mk = (w a)\<lparr>sendCalled := True, lastMessage := Text msg\<rparr>
      in (if shouldFail mk then Some (NotificationError (name mk) ''mock error'' None) else None,
          w(a := mk)))"

text \<open>The interface value of the mock at address \<open>a\<close>, whose name is \<open>nm\<close>.\<close>

definition mock_notifier :: "nat \<Rightarrow> string \<Rightarrow> mock_store Notifier" where
  "mock_notifier a nm =
     \<lparr>Send = Mock_Send a, SendWithOptions = Mock_SendWithOptions a, Name = nm\<rparr>"

text \<open>The managers and the mocks of the tests.\<close>

definition one_mock :: "mock_store Manager" where
  "one_mock = snd (Register NewManager (Some (mock_notifier 0 ''test'')))"

definition two_mocks :: "mock_store Manager" where
  "two_mocks =
     snd (Register (snd (Register NewManager (Some (mock_notifier 0 ''test1''))))
            (Some (mock_notifier 1 ''test2'')))"

definition store0 :: mock_store where
  "store0 = (\<lambda>a. NewMockNotifier ''test1'')(1 := (NewMockNotifier ''test2'')\<lparr>shouldFail := True\<rparr>)"

definition env0 :: "mock_store env" where
  "env0 = \<lparr>world = store0, calls = []\<rparr>"

definition configured :: "mock_store \<Rightarrow> bool" where
  "configured w \<longleftrightarrow> \<not> shouldFail (w 0) \<and> shouldFail (w 1)"

definition env1 :: "mock_store env" where
  "env1 = \<lparr>world = (\<lambda>a. NewMockNotifier ''test''), calls = []\<rparr>"

text \<open>The configurations \<^verbatim>\<open>SlackConfig{}\<close> and \<^verbatim>\<open>TelegramConfig{}\<close>.\<close>

definition empty_SlackConfig :: SlackConfig where
  "empty_SlackConfig =
     \<lparr>Token = [], DefaultChannel = [], Username = [], IconEmoji = [], WebhookURL = []\<rparr>"

definition empty_TelegramConfig :: "unit TelegramConfig" where
  "empty_TelegramConfig = \<lparr>BotToken = [], ChatID = [], ParseMode = [], HTTPClient = None\<rparr>"

text \<open>
  A Slack provider whose client refuses every post, and a Telegram provider behind a
  library whose client reaches no host.
\<close>

definition refusing_client :: "unit slack_Client" where
  "refusing_client c channel options w = (Some (ErrorString ''not_authed''), w)"

definition slack_test :: "unit SlackNotifier" where
  "slack_test =
     \<lparr>SlackNotifier.client = Some refusing_client, defaultChannel = ''#general'', username = [],
      iconEmoji = []\<rparr>"

definition offline_lib :: "unit golib" where
  "offline_lib =
     \<lparr>json_Marshal = (\<lambda>payload. Inr []),
      http_NewRequestWithContext =
        (\<lambda>c method url bytes.
           Inr \<lparr>req_ctx = c, req_method = method, req_url = url, req_body = bytes,
                req_header = []\<rparr>),
      http_Client_30s = (\<lambda>req w. (Inl (ErrorString ''no route to host''), w)),
      json_Unmarshal = (\<lambda>bytes. Inr (True, []))\<rparr>"

definition telegram_test :: "unit TelegramNotifier" where
  "telegram_test =
     \<lparr>botToken = ''token'', chatID = ''42'', client = http_Client_30s offline_lib,
      parseMode = ''Markdown''\<rparr>"

text \<open>
  The concurrent broadcast of the tests, on the manager with two mocks of which the second
  fails.
\<close>

definition two_mocks_start :: "mock_store async" where
  "two_mocks_start =
     fst (BroadcastAsync two_mocks [''test2'', ''test1''] [''test2'', ''test1''] Background ''hi''
            store0)"

section \<open>Facts\<close>

subsection \<open>Locks, ranging and the registry\<close>

lemma notifiers_Lock [simp]: "notifiers (Lock m) = notifiers m"
  by (simp add: Lock_def)

lemma notifiers_Unlock [simp]: "notifiers (Unlock m) = notifiers m"
  by (simp add: Unlock_def)

lemma notifiers_RLock [simp]: "notifiers (RLock m) = notifiers m"
  by (simp add: RLock_def)

lemma notifiers_RUnlock [simp]: "notifiers (RUnlock m) = notifiers m"
  by (simp add: RUnlock_def)

lemma RUnlock_RLock [simp]: "RUnlock (RLock m) = m"
  by (simp add: RLock_def RUnlock_def)

lemma Unlock_Lock_free: "\<not> writer (mu m) \<Longrightarrow> Unlock (Lock m) = m"
  by (simp add: Lock_def Unlock_def)

lemma range_entries_present:
  "\<forall>k\<in>set ks. m k \<noteq> None \<Longrightarrow> map fst (range_entries m ks) = ks"
  by (induction ks) auto

lemma range_entries_keys: "range_order m ks \<Longrightarrow> map fst (range_entries m ks) = ks"
  by (rule range_entries_present) (auto simp: range_order_def)

lemma range_entries_lookup:
  "(k, v) \<in> set (range_entries m ks) \<Longrightarrow> m k = Some v"
  by (induction ks) (auto split: option.splits)

lemma range_entries_filter: "map fst (range_entries m ks) = filter (\<lambda>k. m k \<noteq> None) ks"
  by (induction ks) (auto split: option.splits)

lemma List_loop_append: "List_loop es names = names @ map fst es"
  by (induction es names rule: List_loop.induct) auto

lemma List_names: "fst (List m ks) = filter (\<lambda>k. notifiers m k \<noteq> None) ks"
  by (simp add: List_def Let_def List_loop_append range_entries_filter)

lemma Name_mock_notifier [simp]: "Name (mock_notifier a nm) = nm"
  by (simp add: mock_notifier_def)

lemma Get_eq: "Get m nm = (notifiers m nm, m)"
  by (simp add: Get_def Let_def)

lemma Unregister_notifiers [simp]: "notifiers (Unregister m nm) = (notifiers m)(nm := None)"
  by (simp add: Unregister_def Let_def)

lemma Unregister_twice: "Unregister (Unregister m nm) nm = Unregister m nm"
  by (simp add: Unregister_def Let_def Lock_def Unlock_def)

lemma Register_ok_notifiers:
  "fst (Register m (Some p)) = None \<Longrightarrow>
     notifiers m (Name p) = None \<and> notifiers (snd (Register m (Some p))) = (notifiers m)(Name p \<mapsto> p)"
  by (auto simp: Register_def Let_def split: if_splits)

lemma Register_ok_iff: "fst (Register m (Some p)) = None \<longleftrightarrow> notifiers m (Name p) = None"
  by (auto simp: Register_def Let_def)

lemma Unregister_Register_free:
  "fst (Register m (Some p)) = None \<Longrightarrow> \<not> writer (mu m) \<Longrightarrow>
     Unregister (snd (Register m (Some p))) (Name p) = m"
proof -
  assume ok: "fst (Register m (Some p)) = None" and free: "\<not> writer (mu m)"
  from ok have absent: "notifiers m (Name p) = None"
    by (simp add: Register_ok_iff)
  then have "(notifiers m)(Name p := None) = notifiers m"
    by (intro ext) simp
  moreover from free have "(mu m)\<lparr>writer := False\<rparr> = mu m"
    by simp
  ultimately show ?thesis
    using absent by (simp add: Register_def Unregister_def Let_def Lock_def Unlock_def)
qed

subsection \<open>The loops of the synchronous broadcasts\<close>

lemma call_errors_append [simp]: "call_errors (xs @ ys) = call_errors xs @ call_errors ys"
  by (induction xs) (auto split: option.splits)

lemma length_call_errors:
  "length (call_errors cls) = length (filter (\<lambda>cl. outcome cl \<noteq> None) cls)"
  by (induction cls) (auto split: option.splits)

lemma call_errors_Nil_iff: "call_errors cls = [] \<longleftrightarrow> (\<forall>cl\<in>set cls. outcome cl = None)"
  by (induction cls) (auto split: option.splits)

lemma Broadcast_loop_sends:
  "Broadcast_loop l c message es errors e = sends_loop l (\<lambda>nt. Send nt c message) es errors e"
  by (induction es arbitrary: errors e) (auto split: prod.splits option.splits)

lemma BroadcastWithOptions_loop_sends:
  "BroadcastWithOptions_loop l c msg es errors e
     = sends_loop l (\<lambda>nt. SendWithOptions nt c msg) es errors e"
  by (induction es arbitrary: errors e) (auto split: prod.splits option.splits)

lemma sends_loop_calls:
  assumes "I (world e)" and "\<forall>kn\<in>set es. \<forall>w. I w \<longrightarrow> I (snd (f (snd kn) w))"
  shows "\<exists>new. calls (snd (sends_loop l f es errors e)) = calls e @ new
     \<and> fst (sends_loop l f es errors e) = errors @ call_errors new
     \<and> list_all2 (made_by l f I) new es"
  using assms
proof (induction es arbitrary: errors e)
  case Nil
  then show ?case by simp
next
  case (Cons kn es)
  obtain k nt where kn: "kn = (k, nt)" by (cases kn)
  obtain err w' where s: "f nt (world e) = (err, w')"
    by (cases "f nt (world e)")
  define cl where "cl = \<lparr>callee = k, outcome = err, lock_at_call = l\<rparr>"
  define e1 where "e1 = \<lparr>world = w', calls = calls e @ [cl]\<rparr>"
  define errors1 where
    "errors1 = (case err of None \<Rightarrow> errors | Some x \<Rightarrow> errors @ [Errorf_tagged k x])"
  have inv: "invoke l k (f nt) e = (err, e1)"
    by (simp add: invoke_def s e1_def cl_def)
  have step: "sends_loop l f (kn # es) errors e = sends_loop l f es errors1 e1"
    by (simp add: kn inv errors1_def split: option.splits)
  have mb: "made_by l f I cl (k, nt)"
    using s Cons.prems(1) by (auto simp: made_by_def cl_def intro: exI [of _ "world e"])
  have ce: "errors1 = errors @ call_errors [cl]"
    by (simp add: errors1_def cl_def split: option.splits)
  have I1: "I (world e1)"
    using Cons.prems s by (simp add: e1_def kn) (metis snd_conv)
  have pres: "\<forall>kn\<in>set es. \<forall>w. I w \<longrightarrow> I (snd (f (snd kn) w))"
    using Cons.prems(2) by simp
  from Cons.IH [OF I1 pres, of errors1] obtain new where
    n: "calls (snd (sends_loop l f es errors1 e1)) = calls e1 @ new"
       "fst (sends_loop l f es errors1 e1) = errors1 @ call_errors new"
       "list_all2 (made_by l f I) new es"
    by blast
  have "calls (snd (sends_loop l f (kn # es) errors e)) = calls e @ (cl # new)"
    using n(1) by (simp add: step e1_def)
  moreover have "fst (sends_loop l f (kn # es) errors e) = errors @ call_errors (cl # new)"
    using n(2) ce by (simp add: step split: option.splits)
  moreover have "list_all2 (made_by l f I) (cl # new) (kn # es)"
    using n(3) mb by (simp add: kn)
  ultimately show ?case by blast
qed

lemma made_by_callees: "list_all2 (made_by l f I) new es \<Longrightarrow> map callee new = map fst es"
  by (induction new es rule: list_all2_induct) (auto simp: made_by_def)

lemma made_by_lock: "list_all2 (made_by l f I) new es \<Longrightarrow> \<forall>cl\<in>set new. lock_at_call cl = l"
  by (induction new es rule: list_all2_induct) (auto simp: made_by_def)

lemma made_by_failed:
  "made_by l f I cl kn \<Longrightarrow>
   \<forall>w. I w \<longrightarrow> (fst (f (snd kn) w) \<noteq> None) = (fst kn \<in> F) \<Longrightarrow>
   (outcome cl \<noteq> None) = (fst kn \<in> F)"
  unfolding made_by_def by metis

lemma made_by_failures:
  "list_all2 (made_by l f I) new es \<Longrightarrow>
   \<forall>kn\<in>set es. \<forall>w. I w \<longrightarrow> (fst (f (snd kn) w) \<noteq> None) = (fst kn \<in> F) \<Longrightarrow>
   length (filter (\<lambda>cl. outcome cl \<noteq> None) new) = length (filter (\<lambda>k. k \<in> F) (map fst es))"
proof (induction new es rule: list_all2_induct)
  case Nil
  then show ?case by simp
next
  case (Cons cl new kn es)
  have "(outcome cl \<noteq> None) = (fst kn \<in> F)"
    using Cons.hyps(1) Cons.prems by (intro made_by_failed) auto
  moreover have "length (filter (\<lambda>cl. outcome cl \<noteq> None) new)
      = length (filter (\<lambda>k. k \<in> F) (map fst es))"
    using Cons.IH Cons.prems by simp
  ultimately show ?case by simp
qed

lemma card_failing:
  "distinct ks \<Longrightarrow> F \<subseteq> set ks \<Longrightarrow> length (filter (\<lambda>k. k \<in> F) ks) = card F"
proof -
  assume d: "distinct ks" and s: "F \<subseteq> set ks"
  have "set (filter (\<lambda>k. k \<in> F) ks) = F" using s by auto
  moreover have "distinct (filter (\<lambda>k. k \<in> F) ks)" using d by simp
  ultimately show ?thesis using distinct_card by metis
qed

text \<open>What a loop of sends over the registry in range order \<open>ks\<close> does.\<close>

lemma sends_loop_registry_calls:
  assumes ro: "range_order reg ks"
  shows "\<exists>new. calls (snd (sends_loop l f (range_entries reg ks) [] e)) = calls e @ new
     \<and> map callee new = ks
     \<and> (\<forall>cl\<in>set new. lock_at_call cl = l)
     \<and> fst (sends_loop l f (range_entries reg ks) [] e) = call_errors new"
proof -
  let ?es = "range_entries reg ks"
  from sends_loop_calls [of "\<lambda>_. True" e ?es f l "[]"] obtain new where
    n: "calls (snd (sends_loop l f ?es [] e)) = calls e @ new"
       "fst (sends_loop l f ?es [] e) = [] @ call_errors new"
       "list_all2 (made_by l f (\<lambda>_. True)) new ?es"
    by blast
  have keys: "map fst ?es = ks" using ro by (rule range_entries_keys)
  have c: "map callee new = ks" using made_by_callees [OF n(3)] keys by simp
  have lk: "\<forall>cl\<in>set new. lock_at_call cl = l" using n(3) by (rule made_by_lock)
  show ?thesis using n(1,2) c lk by auto
qed

lemma sends_loop_registry_failures:
  assumes ro: "range_order reg ks" and fe: "fail_exactly reg f I F" and I0: "I (world e)"
  shows "length (fst (sends_loop l f (range_entries reg ks) [] e)) = card F"
proof -
  let ?es = "range_entries reg ks"
  have ent: "reg (fst kn) = Some (snd kn)" if "kn \<in> set ?es" for kn
    using that range_entries_lookup [of "fst kn" "snd kn" reg ks] by simp
  have pres: "\<forall>kn\<in>set ?es. \<forall>w. I w \<longrightarrow> I (snd (f (snd kn) w))"
    using fe ent unfolding fail_exactly_def by blast
  have fl: "\<forall>kn\<in>set ?es. \<forall>w. I w \<longrightarrow> (fst (f (snd kn) w) \<noteq> None) = (fst kn \<in> F)"
    using fe ent unfolding fail_exactly_def by blast
  from sends_loop_calls [OF I0 pres, of l "[]"] obtain new where
    n: "fst (sends_loop l f ?es [] e) = [] @ call_errors new"
       "list_all2 (made_by l f I) new ?es"
    by blast
  have keys: "map fst ?es = ks" using ro by (rule range_entries_keys)
  from made_by_failures [OF n(2) fl]
  have "length (filter (\<lambda>cl. outcome cl \<noteq> None) new) = length (filter (\<lambda>k. k \<in> F) ks)"
    by (simp add: keys)
  also have "\<dots> = card F"
    using ro fe by (intro card_failing) (auto simp: range_order_def fail_exactly_def)
  finally show ?thesis using n(1) by (simp add: length_call_errors)
qed

text \<open>
  The relation fixes the errors, the keys of the calls and the outside state at the end.
\<close>

inductive_cases sent_no_keyE: "sent_in_order reg f [] w new w'"
inductive_cases sent_next_keyE: "sent_in_order reg f (k # ks) w new w'"

lemma sent_in_order_determined:
  "sent_in_order reg f ks w new w' \<Longrightarrow> sent_in_order reg f ks w new2 w2 \<Longrightarrow>
   w2 = w' \<and> map callee new2 = map callee new \<and> map outcome new2 = map outcome new"
proof (induction arbitrary: new2 w2 rule: sent_in_order.induct)
  case (no_key reg f w)
  then show ?case by (auto elim: sent_no_keyE)
next
  case (next_key reg k nt f w err w1 cl ks cls w')
  from next_key.prems obtain nt' err' w1' cl' cls' where
    c: "new2 = cl' # cls'" "reg k = Some nt'" "f nt' w = (err', w1')" "callee cl' = k"
       "outcome cl' = err'" "sent_in_order reg f ks w1' cls' w2"
    by (elim sent_next_keyE) blast
  from c(2,3) next_key.hyps(1,2) have same: "err' = err" "w1' = w1" by auto
  from c(6) same have "sent_in_order reg f ks w1 cls' w2" by simp
  from next_key.IH [OF this] c(1,4,5) same next_key.hyps(3,4) show ?case by simp
qed

lemma sends_loop_in_order:
  assumes "\<forall>kn\<in>set es. reg (fst kn) = Some (snd kn)"
  shows "\<exists>new. calls (snd (sends_loop l f es errors e)) = calls e @ new
     \<and> sent_in_order reg f (map fst es) (world e) new (world (snd (sends_loop l f es errors e)))"
  using assms
proof (induction es arbitrary: errors e)
  case Nil
  then show ?case by (simp add: sent_in_order.no_key)
next
  case (Cons kn es)
  obtain k nt where kn: "kn = (k, nt)" by (cases kn)
  obtain err w1 where s: "f nt (world e) = (err, w1)"
    by (cases "f nt (world e)")
  define cl where "cl = \<lparr>callee = k, outcome = err, lock_at_call = l\<rparr>"
  define e1 where "e1 = \<lparr>world = w1, calls = calls e @ [cl]\<rparr>"
  define errors1 where
    "errors1 = (case err of None \<Rightarrow> errors | Some x \<Rightarrow> errors @ [Errorf_tagged k x])"
  have inv: "invoke l k (f nt) e = (err, e1)"
    by (simp add: invoke_def s e1_def cl_def)
  have step: "sends_loop l f (kn # es) errors e = sends_loop l f es errors1 e1"
    by (simp add: kn inv errors1_def split: option.splits)
  have reg: "reg k = Some nt" using Cons.prems by (simp add: kn)
  have rest: "\<forall>kn\<in>set es. reg (fst kn) = Some (snd kn)" using Cons.prems by simp
  from Cons.IH [OF rest, of errors1 e1] obtain new where
    n: "calls (snd (sends_loop l f es errors1 e1)) = calls e1 @ new"
       "sent_in_order reg f (map fst es) (world e1) new
          (world (snd (sends_loop l f es errors1 e1)))"
    by blast
  have "calls (snd (sends_loop l f (kn # es) errors e)) = calls e @ (cl # new)"
    using n(1) by (simp add: step e1_def)
  moreover have "sent_in_order reg f (map fst (kn # es)) (world e) (cl # new)
      (world (snd (sends_loop l f (kn # es) errors e)))"
    unfolding step using n(2) reg s
    by (simp add: kn e1_def) (rule sent_in_order.next_key, auto simp: cl_def)
  ultimately show ?case by blast
qed

lemma sends_loop_registry_in_order:
  assumes ro: "range_order reg ks"
  shows "\<exists>new. calls (snd (sends_loop l f (range_entries reg ks) [] e)) = calls e @ new
     \<and> sent_in_order reg f ks (world e) new
          (world (snd (sends_loop l f (range_entries reg ks) [] e)))"
proof -
  have "\<forall>kn\<in>set (range_entries reg ks). reg (fst kn) = Some (snd kn)"
    using range_entries_lookup [of _ _ reg ks] by auto
  from sends_loop_in_order [OF this, of l f "[]" e] show ?thesis
    by (simp add: range_entries_keys [OF ro])
qed

text \<open>Everything the loop of sends over the registry does, about one list of new calls.\<close>

lemma sends_loop_registry_all:
  assumes ro: "range_order reg ks"
  shows "\<exists>new. calls (snd (sends_loop l f (range_entries reg ks) [] e)) = calls e @ new
     \<and> sent_in_order reg f ks (world e) new
          (world (snd (sends_loop l f (range_entries reg ks) [] e)))
     \<and> map callee new = ks
     \<and> (\<forall>cl\<in>set new. lock_at_call cl = l)
     \<and> fst (sends_loop l f (range_entries reg ks) [] e) = call_errors new"
proof -
  from sends_loop_registry_in_order [OF ro, of l f e] obtain new where
    a: "calls (snd (sends_loop l f (range_entries reg ks) [] e)) = calls e @ new"
       "sent_in_order reg f ks (world e) new
          (world (snd (sends_loop l f (range_entries reg ks) [] e)))"
    by blast
  from sends_loop_registry_calls [OF ro, of l f e] obtain new' where
    b: "calls (snd (sends_loop l f (range_entries reg ks) [] e)) = calls e @ new'"
       "map callee new' = ks" "\<forall>cl\<in>set new'. lock_at_call cl = l"
       "fst (sends_loop l f (range_entries reg ks) [] e) = call_errors new'"
    by blast
  from a(1) b(1) have "new' = new" by simp
  with a b show ?thesis by blast
qed

lemma Broadcast_sends:
  "Broadcast m ks c message e =
     (fst (sends_loop (mu (RLock m)) (\<lambda>nt. Send nt c message) (range_entries (notifiers m) ks) [] e),
      m,
      snd (sends_loop (mu (RLock m)) (\<lambda>nt. Send nt c message) (range_entries (notifiers m) ks) [] e))"
  by (simp add: Broadcast_def Let_def Broadcast_loop_sends split: prod.splits)

lemma BroadcastWithOptions_sends:
  "BroadcastWithOptions m ks c msg e =
     (fst (sends_loop (mu (RLock m)) (\<lambda>nt. SendWithOptions nt c msg)
             (range_entries (notifiers m) ks) [] e),
      m,
      snd (sends_loop (mu (RLock m)) (\<lambda>nt. SendWithOptions nt c msg)
             (range_entries (notifiers m) ks) [] e))"
  by (simp add: BroadcastWithOptions_def Let_def BroadcastWithOptions_loop_sends
      split: prod.splits)

lemma two_mocks_notifiers:
  "notifiers two_mocks = [''test1'' \<mapsto> mock_notifier 0 ''test1'', ''test2'' \<mapsto> mock_notifier 1 ''test2'']"
  by (simp add: two_mocks_def Register_def Let_def NewManager_def)

lemma two_mocks_range: "range_order (notifiers two_mocks) [''test2'', ''test1'']"
  by (auto simp: range_order_def two_mocks_notifiers)

lemma Broadcast_two_mocks:
  "fst (Broadcast two_mocks [''test2'', ''test1''] Background ''hi'' env0)
     = [WrapError ''test2: test2 notification error: mock error''
          (NotificationError ''test2'' ''mock error'' None)]"
  by (simp add: Broadcast_def Let_def two_mocks_notifiers invoke_def mock_notifier_def
      Mock_Send_def env0_def store0_def NewMockNotifier_def Errorf_tagged_def)

lemma Broadcast_two_mocks_calls:
  "map callee (calls (snd (snd (Broadcast two_mocks [''test2'', ''test1''] Background ''hi'' env0))))
     = [''test2'', ''test1'']"
  by (simp add: Broadcast_def Let_def two_mocks_notifiers invoke_def mock_notifier_def
      Mock_Send_def env0_def store0_def NewMockNotifier_def Errorf_tagged_def)

lemma Broadcast_two_mocks_world:
  "world (snd (snd (Broadcast two_mocks [''test2'', ''test1''] Background ''hi'' env0)))
     = store0(1 := (store0 1)\<lparr>sendCalled := True, lastMessage := ''hi''\<rparr>,
              0 := (store0 0)\<lparr>sendCalled := True, lastMessage := ''hi''\<rparr>)"
  by (simp add: Broadcast_def Let_def two_mocks_notifiers invoke_def mock_notifier_def
      Mock_Send_def env0_def)

lemma Broadcast_two_mocks_log:
  "calls (snd (snd (Broadcast two_mocks [''test2'', ''test1''] Background ''hi'' env0)))
     = [\<lparr>callee = ''test2'', outcome = Some (NotificationError ''test2'' ''mock error'' None),
         lock_at_call = \<lparr>readers = 1, writer = False\<rparr>\<rparr>,
        \<lparr>callee = ''test1'', outcome = None, lock_at_call = \<lparr>readers = 1, writer = False\<rparr>\<rparr>]"
  by (simp add: Broadcast_def Let_def two_mocks_notifiers invoke_def mock_notifier_def
      Mock_Send_def env0_def store0_def NewMockNotifier_def RLock_def two_mocks_def
      Register_def NewManager_def Lock_def Unlock_def unlocked_def)

lemma two_mocks_fail_exactly:
  "fail_exactly (notifiers two_mocks) (\<lambda>nt. Send nt c message) configured {''test2''}"
  by (auto simp: fail_exactly_def two_mocks_notifiers configured_def mock_notifier_def
      Mock_Send_def Let_def split: if_splits)

lemma two_mocks_fail_exactly_opts:
  "fail_exactly (notifiers two_mocks) (\<lambda>nt. SendWithOptions nt c msg) configured {''test2''}"
  by (auto simp: fail_exactly_def two_mocks_notifiers configured_def mock_notifier_def
      Mock_SendWithOptions_def Let_def split: if_splits)

lemma configured_store0: "configured (world env0)"
  by (simp add: configured_def env0_def store0_def NewMockNotifier_def)

subsection \<open>The invariant of the concurrent broadcast\<close>

lemma live_simps [simp]:
  "live [] = []"
  "live (us @ vs) = live us @ live vs"
  "live (u # us) = (if pc u = Finished then live us else u # live us)"
  by (simp_all add: live_def)

lemma pushed_simps [simp]:
  "pushed [] = []"
  "pushed (us @ vs) = pushed us @ pushed vs"
  "pushed (u # us) = (if pc u = Sent \<or> pc u = Finished then u # pushed us else pushed us)"
  by (simp_all add: pushed_def)

lemma length_pushed_le: "length (pushed us) \<le> length us"
  by (simp add: pushed_def)

lemma live_Nil_iff: "live us = [] \<longleftrightarrow> (\<forall>u\<in>set us. pc u = Finished)"
  by (auto simp: live_def filter_empty_conv)

lemma async_inv_start:
  "range_order snap ks \<Longrightarrow> async_inv ks (async_start f snap ks w)"
  by (simp add: async_inv_def async_start_def range_entries_keys)
     (metis distinct_card range_order_def)

lemma async_inv_step:
  assumes "async_step s s'" and "async_inv ks s"
  shows "async_inv ks s'"
  using assms
proof (cases rule: async_step.cases)
  case (spawn k nt rest)
  then show ?thesis using assms(2) by (auto simp: async_inv_def)
next
  case start_closer
  then show ?thesis using assms(2) by (auto simp: async_inv_def)
next
  case (send us u vs err w')
  then show ?thesis using assms(2) by (auto simp: async_inv_def)
next
  case (push us u vs err)
  then show ?thesis using assms(2) by (auto simp: async_inv_def)
next
  case (push_closed us u vs err)
  then show ?thesis using assms(2) by (auto simp: async_inv_def)
next
  case (wg_done us u vs)
  then show ?thesis using assms(2) by (auto simp: async_inv_def)
next
  case close_chan
  then show ?thesis using assms(2) by (auto simp: async_inv_def live_Nil_iff)
next
  case (recv r rs)
  then show ?thesis using assms(2) by (auto simp: async_inv_def)
next
  case recv_closed
  then show ?thesis using assms(2) by (auto simp: async_inv_def)
qed


lemma async_inv_reachable:
  "async_step\<^sup>*\<^sup>* s0 s \<Longrightarrow> async_inv ks s0 \<Longrightarrow> async_inv ks s"
  by (induction rule: rtranclp_induct) (auto intro: async_inv_step)

lemma async_inv_room:
  assumes "async_inv ks s" and "units s = us @ u # vs" and "pc u = Returned err"
  shows "length (chan s) < chan_cap s"
proof -
  have "length (received s @ chan s) = length (pushed (units s))"
    using assms(1) unfolding async_inv_def by (metis length_map size_mset)
  also have "\<dots> = length (pushed us) + length (pushed vs)"
    using assms(2,3) by simp
  also have "\<dots> < length (units s)"
    using assms(2) length_pushed_le [of us] length_pushed_le [of vs] by simp
  also have "\<dots> \<le> length ks"
    using assms(1) unfolding async_inv_def by (metis length_append length_map le_add1)
  finally show ?thesis using assms(1) by (simp add: async_inv_def)
qed

lemma async_progress:
  assumes inv: "async_inv ks s" and open_range: "\<not> range_ended s"
  shows "\<exists>s'. async_step s s'"
proof -
  have np: "\<not> panicked s" using inv by (simp add: async_inv_def)
  show ?thesis
  proof (cases "spawning s")
    case (Cons kn rest)
    then obtain k nt where "spawning s = (k, nt) # rest" by (cases kn) simp
    from async_step.spawn [OF np this] show ?thesis by blast
  next
    case Nil
    show ?thesis
    proof (cases "closer s = NotStarted")
      case True
      from async_step.start_closer [OF np Nil True] show ?thesis by blast
    next
      case started: False
      show ?thesis
      proof (cases "\<exists>u\<in>set (units s). pc u \<noteq> Finished")
        case True
        then obtain u where u: "u \<in> set (units s)" "pc u \<noteq> Finished" by blast
        then obtain us vs where sp: "units s = us @ u # vs" by (meson split_list)
        have nc: "\<not> chan_closed s" using inv u by (auto simp: async_inv_def)
        show ?thesis
        proof (cases "pc u")
          case Running
          obtain err w' where "unit_body s (unit_nt u) (outside s) = (err, w')"
            by (cases "unit_body s (unit_nt u) (outside s)")
          from async_step.send [OF np sp Running this] show ?thesis by blast
        next
          case (Returned err)
          from async_step.push [OF np sp Returned nc async_inv_room [OF inv sp Returned]]
          show ?thesis by blast
        next
          case Sent
          from async_step.wg_done [OF np sp Sent] show ?thesis by blast
        next
          case Finished
          with u show ?thesis by simp
        qed
      next
        case False
        then have "live (units s) = []" by (simp add: live_Nil_iff)
        then have z: "wg s = 0" using inv by (simp add: async_inv_def)
        show ?thesis
        proof (cases "closer s")
          case NotStarted
          with started show ?thesis by simp
        next
          case Waiting
          from async_step.close_chan [OF np Waiting z] show ?thesis by blast
        next
          case Closed
          then have cl: "chan_closed s" using inv by (simp add: async_inv_def)
          show ?thesis
          proof (cases "chan s")
            case Nil
            from async_step.recv_closed [OF np started open_range Nil cl] show ?thesis by blast
          next
            case (Cons r rs)
            from async_step.recv [OF np started open_range Cons] show ?thesis by blast
          qed
        qed
      qed
    qed
  qed
qed

lemma async_step_decreases: "async_step s s' \<Longrightarrow> steps_left s' < steps_left s"
  by (cases rule: async_step.cases) (auto simp: steps_left_def)

lemma async_completes:
  "async_inv ks s \<Longrightarrow> \<exists>s'. async_step\<^sup>*\<^sup>* s s' \<and> range_ended s'"
proof (induction "steps_left s" arbitrary: s rule: less_induct)
  case less
  show ?case
  proof (cases "range_ended s")
    case True
    then show ?thesis by blast
  next
    case False
    from async_progress [OF less.prems False] obtain t where t: "async_step s t" by blast
    from less.hyps [OF async_step_decreases [OF t] async_inv_step [OF t less.prems]]
    obtain s' where "async_step\<^sup>*\<^sup>* t s'" "range_ended s'" by blast
    with t show ?thesis by (meson converse_rtranclp_into_rtranclp)
  qed
qed

lemma async_inv_results:
  assumes "async_inv ks s" and "chan_closed s"
  shows "map unit_n (pushed (units s)) = ks"
proof -
  have "spawning s = []" "\<forall>u\<in>set (units s). pc u = Finished"
    using assms by (auto simp: async_inv_def)
  then have "pushed (units s) = units s" by (simp add: pushed_def)
  with assms \<open>spawning s = []\<close> show ?thesis by (simp add: async_inv_def)
qed

lemma copy_loop_snapshot:
  "copy_loop (range_entries reg ks) snap = snap ++ (reg |` set ks)"
proof (induction ks arbitrary: snap)
  case Nil
  then show ?case by simp
next
  case (Cons k ks)
  show ?case
  proof (cases "reg k")
    case None
    then have "reg |` set (k # ks) = reg |` set ks"
      by (intro ext) (auto simp: restrict_map_def)
    with None Cons show ?thesis by simp
  next
    case (Some v)
    have "copy_loop (range_entries reg (k # ks)) snap
        = copy_loop (range_entries reg ks) (snap(k \<mapsto> v))"
      using Some by simp
    also have "\<dots> = snap(k \<mapsto> v) ++ (reg |` set ks)"
      by (rule Cons)
    also have "\<dots> = snap ++ (reg |` set (k # ks))"
      using Some by (intro ext) (auto simp: map_add_def restrict_map_def split: option.splits)
    finally show ?thesis .
  qed
qed

lemma copy_loop_range: "range_order reg ks \<Longrightarrow> copy_loop (range_entries reg ks) Map.empty = reg"
  unfolding copy_loop_snapshot range_order_def
  by (intro ext) (auto simp: restrict_map_def domIff)

lemma BroadcastAsync_eq:
  "range_order (notifiers m) ks \<Longrightarrow>
   BroadcastAsync m ks ks' c message w
     = (async_start (\<lambda>nt. Send nt c message) (notifiers m) ks' w, m)"
  by (simp add: BroadcastAsync_def Let_def copy_loop_range)

lemma BroadcastAsyncWithOptions_eq:
  "range_order (notifiers m) ks \<Longrightarrow>
   BroadcastAsyncWithOptions m ks ks' c msg w
     = (async_start (\<lambda>nt. SendWithOptions nt c msg) (notifiers m) ks' w, m)"
  by (simp add: BroadcastAsyncWithOptions_def Let_def copy_loop_range)

lemma async_inv_pushed_sub:
  assumes "async_inv ks s"
  shows "mset (map Provider (received s @ chan s)) \<subseteq># mset ks"
proof -
  have "mset (map unit_n (pushed (units s))) \<subseteq># mset (map unit_n (units s))"
    unfolding pushed_def by (simp add: image_mset_subseteq_mono)
  also have "\<dots> \<subseteq># mset ks"
    using assms unfolding async_inv_def by (metis mset_append mset_subset_eq_add_left)
  finally show ?thesis using assms by (simp add: async_inv_def)
qed

lemma async_inv_closed:
  assumes "async_inv ks s" and "chan_closed s"
  shows "map Provider (received s @ chan s) \<in> {xs. mset xs = mset ks}"
  using assms async_inv_results [OF assms] by (simp add: async_inv_def)

text \<open>What holds in a state that a concurrent broadcast over the registry \<open>reg\<close> has reached.\<close>

lemma async_reached:
  assumes ro: "range_order reg ks" and reach: "async_step\<^sup>*\<^sup>* (async_start f reg ks w) s"
  shows "\<not> panicked s
    \<and> (chan_closed s \<longrightarrow>
          length (received s @ chan s) = card (dom reg)
          \<and> mset (map Provider (received s @ chan s)) = mset_set (dom reg))
    \<and> (range_ended s \<longrightarrow>
          length (received s) = card (dom reg)
          \<and> mset (map Provider (received s)) = mset_set (dom reg))
    \<and> mset (map Provider (received s @ chan s)) \<subseteq># mset_set (dom reg)
    \<and> (\<forall>r\<in>set (received s @ chan s). Success r = (Error r = None))
    \<and> (\<not> range_ended s \<longrightarrow> (\<exists>s'. async_step s s'))
    \<and> (\<forall>s'. async_step s s' \<longrightarrow> steps_left s' < steps_left s)
    \<and> (\<exists>s'. async_step\<^sup>*\<^sup>* s s' \<and> range_ended s')"
proof -
  have inv: "async_inv ks s"
    using reach async_inv_start [OF ro] by (rule async_inv_reachable)
  have ms: "mset ks = mset_set (dom reg)"
    using ro mset_set_set [of ks] by (simp add: range_order_def)
  have len: "length ks = card (dom reg)"
    using ro distinct_card [of ks] by (simp add: range_order_def)
  have closed: "length (received s @ chan s) = card (dom reg)
      \<and> mset (map Provider (received s @ chan s)) = mset_set (dom reg)" if "chan_closed s"
  proof -
    have m: "mset (map Provider (received s @ chan s)) = mset ks"
      using async_inv_closed [OF inv that] by simp
    then have "size (mset (map Provider (received s @ chan s))) = size (mset ks)" by simp
    then have "length (received s @ chan s) = length ks" by simp
    with m show ?thesis by (simp add: ms len)
  qed
  have ended: "length (received s) = card (dom reg)
      \<and> mset (map Provider (received s)) = mset_set (dom reg)" if "range_ended s"
  proof -
    have "chan_closed s" "chan s = []" using inv that by (auto simp: async_inv_def)
    with closed show ?thesis by simp
  qed
  have sub: "mset (map Provider (received s @ chan s)) \<subseteq># mset_set (dom reg)"
    using async_inv_pushed_sub [OF inv] by (simp add: ms)
  have flags: "\<forall>r\<in>set (received s @ chan s). Success r = (Error r = None)"
    using inv by (simp add: async_inv_def)
  have np: "\<not> panicked s" using inv by (simp add: async_inv_def)
  show ?thesis
    using np closed ended sub flags async_progress [OF inv] async_step_decreases [of s]
      async_completes [OF inv]
    by blast
qed

lemma two_mocks_dom: "dom (notifiers two_mocks) = {''test1'', ''test2''}"
  by (auto simp: two_mocks_notifiers)

lemma range_entries_empty [simp]: "range_entries Map.empty ks = []"
  by (induction ks) auto

lemma async_inv_start_empty: "async_inv [] (async_start f Map.empty ks w)"
  by (simp add: async_inv_def async_start_def)

lemma async_inv_empty:
  assumes "async_inv [] s"
  shows "received s = [] \<and> chan s = []"
proof -
  have "units s = []" using assms by (simp add: async_inv_def)
  then have "mset (map Provider (received s @ chan s)) = {#}"
    using assms by (simp add: async_inv_def)
  then show ?thesis by simp
qed

subsection \<open>The schedule is one of the interleavings\<close>

lemma sched_step:
  assumes "sched s = Some s'"
  shows "async_step s s'"
proof -
  have np: "\<not> panicked s" using assms by (auto simp: sched_def split: if_splits)
  show ?thesis
  proof (cases "spawning s")
    case (Cons kn rest)
    obtain k nt where kn: "kn = (k, nt)" by (cases kn)
    have "s' = s\<lparr>spawning := rest, wg := wg s + 1,
                  units := units s @ [\<lparr>unit_n = k, unit_nt = nt, pc = Running\<rparr>]\<rparr>"
      using assms np Cons kn by (simp add: sched_def)
    then show ?thesis using async_step.spawn [OF np, of k nt rest] Cons kn by simp
  next
    case Nil
    show ?thesis
    proof (cases "closer s = NotStarted")
      case True
      then have "s' = s\<lparr>closer := Waiting\<rparr>" using assms np Nil by (simp add: sched_def)
      then show ?thesis using async_step.start_closer [OF np Nil True] by simp
    next
      case started: False
      let ?us = "takeWhile (\<lambda>u. pc u = Finished) (units s)"
      show ?thesis
      proof (cases "dropWhile (\<lambda>u. pc u = Finished) (units s)")
        case (Cons u vs)
        have sp: "units s = ?us @ u # vs"
          using Cons takeWhile_dropWhile_id [of "\<lambda>u. pc u = Finished" "units s"] by simp
        show ?thesis
        proof (cases "pc u")
          case Running
          obtain err w' where b: "unit_body s (unit_nt u) (outside s) = (err, w')"
            by (cases "unit_body s (unit_nt u) (outside s)")
          have "s' = s\<lparr>units := ?us @ u\<lparr>pc := Returned err\<rparr> # vs, outside := w'\<rparr>"
            using assms np Nil started Cons Running b by (simp add: sched_def Let_def)
          then show ?thesis using async_step.send [OF np sp Running b] by simp
        next
          case (Returned err)
          show ?thesis
          proof (cases "chan_closed s")
            case True
            then have "s' = s\<lparr>panicked := True\<rparr>"
              using assms np Nil started Cons Returned by (simp add: sched_def Let_def)
            then show ?thesis using async_step.push_closed [OF np sp Returned True] by simp
          next
            case False
            then have room: "length (chan s) < chan_cap s"
              using assms np Nil started Cons Returned
              by (simp add: sched_def Let_def split: if_splits)
            then have "s' = s\<lparr>units := ?us @ u\<lparr>pc := Sent\<rparr> # vs,
                              chan := chan s @ [\<lparr>Provider = unit_n u, Success = (err = None),
                                                  Error = err\<rparr>]\<rparr>"
              using assms np Nil started Cons Returned False by (simp add: sched_def Let_def)
            then show ?thesis using async_step.push [OF np sp Returned False room] by simp
          qed
        next
          case Sent
          have "s' = s\<lparr>units := ?us @ u\<lparr>pc := Finished\<rparr> # vs, wg := wg s - 1,
                        panicked := (wg s - 1 < 0)\<rparr>"
            using assms np Nil started Cons Sent by (simp add: sched_def Let_def)
          then show ?thesis using async_step.wg_done [OF np sp Sent] by simp
        next
          case Finished
          then show ?thesis using assms np Nil started Cons by (simp add: sched_def Let_def)
        qed
      next
        case dn: Nil
        show ?thesis
        proof (cases "closer s = Waiting")
          case True
          then have z: "wg s = 0" and "s' = s\<lparr>closer := Closed, chan_closed := True\<rparr>"
            using assms np Nil started dn by (simp_all add: sched_def Let_def split: if_splits)
          then show ?thesis using async_step.close_chan [OF np True z] by simp
        next
          case False
          have nr: "\<not> range_ended s"
            using assms np Nil started dn False by (simp add: sched_def Let_def split: if_splits)
          show ?thesis
          proof (cases "chan s")
            case (Cons r rs)
            then have "s' = s\<lparr>chan := rs, received := received s @ [r]\<rparr>"
              using assms np Nil started dn False nr by (simp add: sched_def Let_def)
            then show ?thesis using async_step.recv [OF np started nr Cons] by simp
          next
            case cn: Nil
            then have cl: "chan_closed s" and "s' = s\<lparr>range_ended := True\<rparr>"
              using assms np Nil started dn False nr
              by (simp_all add: sched_def Let_def split: if_splits)
            then show ?thesis using async_step.recv_closed [OF np started nr cn cl] by simp
          qed
        qed
      qed
    qed
  qed
qed

lemma run_reachable: "async_step\<^sup>*\<^sup>* s (run n s)"
proof (induction n arbitrary: s)
  case 0
  then show ?case by simp
next
  case (Suc n)
  show ?case
  proof (cases "sched s")
    case None
    then show ?thesis by simp
  next
    case (Some s')
    then show ?thesis
      using sched_step [OF Some] Suc [of s'] by (simp add: converse_rtranclp_into_rtranclp)
  qed
qed

lemma two_mocks_start_eq:
  "two_mocks_start =
     \<lparr>unit_body = (\<lambda>nt. Send nt Background ''hi''),
      spawning = [(''test2'', mock_notifier 1 ''test2''), (''test1'', mock_notifier 0 ''test1'')],
      units = [], wg = 0, closer = NotStarted, chan = [], chan_cap = 2, chan_closed = False,
      panicked = False, received = [], range_ended = False, outside = store0\<rparr>"
  unfolding two_mocks_start_def BroadcastAsync_eq [OF two_mocks_range] fst_conv
  by (simp add: async_start_def two_mocks_notifiers two_mocks_dom)

lemma two_mocks_run:
  "received (run 13 two_mocks_start)
     = [\<lparr>Provider = ''test2'', Success = False,
         Error = Some (NotificationError ''test2'' ''mock error'' None)\<rparr>,
        \<lparr>Provider = ''test1'', Success = True, Error = None\<rparr>]
   \<and> range_ended (run 13 two_mocks_start)"
  by (simp add: two_mocks_start_eq eval_nat_numeral sched_def Let_def mock_notifier_def
      Mock_Send_def store0_def NewMockNotifier_def)

section \<open>Registration\<close>

lemma one_mock_notifiers:
  "notifiers one_mock = [''test'' \<mapsto> mock_notifier 0 ''test'']"
  by (simp add: one_mock_def Register_def Let_def NewManager_def)

lemma one_mock_mu: "mu one_mock = unlocked"
  by (simp add: one_mock_def Register_def Let_def NewManager_def Lock_def Unlock_def
      unlocked_def)

text \<open>
  C7. The claim is that \<^verbatim>\<open>Register\<close> refuses every null provider reference. It refuses
  the nil interface: the error is "notifier cannot be nil" (the spec's
  InvalidProviderError) and the manager is returned as it was. It does not refuse a nil
  pointer of a provider type: the interface value made from it is not nil, the check
  \<^verbatim>\<open>notifier == nil\<close> lets it pass, \<^verbatim>\<open>Name\<close> returns the type's constant, and when that
  name is free the nil pointer is stored under it and no error is returned. The nil pointer
  is what \<^verbatim>\<open>NewSlackNotifier\<close> and \<^verbatim>\<open>NewTelegramNotifier\<close> return beside their error.
\<close>

theorem Register_nil_pointer:
  "Register m None = (Some nil_notifier_error, m)
   \<and> Slack_interface on_nil None \<noteq> None
   \<and> Telegram_interface lib on_nil None \<noteq> None
   \<and> (notifiers m ''slack'' = None \<longrightarrow>
        fst (Register m (Slack_interface on_nil None)) = None
        \<and> notifiers (snd (Register m (Slack_interface on_nil None)))
            = (notifiers m)(''slack'' \<mapsto> on_nil\<lparr>Name := ''slack''\<rparr>))
   \<and> (notifiers m ''telegram'' = None \<longrightarrow>
        fst (Register m (Telegram_interface lib on_nil None)) = None
        \<and> notifiers (snd (Register m (Telegram_interface lib on_nil None)))
            = (notifiers m)(''telegram'' \<mapsto> on_nil\<lparr>Name := ''telegram''\<rparr>))"
  by (simp add: Register_def Slack_interface_def Telegram_interface_def Let_def)

theorem Register_nil_pointer_witness:
  "NewSlackNotifier (\<lambda>token. refusing_client) empty_SlackConfig
     = (None, Some (NotificationError ''slack'' ''either token or webhook URL is required'' None))
   \<and> notifiers (NewManager :: unit Manager) ''slack'' = None
   \<and> fst (Register NewManager
            (Slack_interface (slack_notifier slack_test)
               (fst (NewSlackNotifier (\<lambda>token. refusing_client) empty_SlackConfig)))) = None
   \<and> dom (notifiers (snd (Register NewManager
            (Slack_interface (slack_notifier slack_test)
               (fst (NewSlackNotifier (\<lambda>token. refusing_client) empty_SlackConfig))))))
       = {''slack''}
   \<and> NewTelegramNotifier offline_lib empty_TelegramConfig
       = (None, Some (NotificationError ''telegram'' ''bot token is required'' None))
   \<and> fst (Register NewManager
            (Telegram_interface offline_lib (slack_notifier slack_test)
               (fst (NewTelegramNotifier offline_lib empty_TelegramConfig)))) = None
   \<and> Register (NewManager :: unit Manager) None
       = (Some (ErrorString ''notifier cannot be nil''), NewManager)"
proof -
  have p: "NewSlackNotifier (\<lambda>token. refusing_client) empty_SlackConfig
     = (None, Some (NotificationError ''slack'' ''either token or webhook URL is required'' None))"
    by (simp add: NewSlackNotifier_def empty_SlackConfig_def)
  have t: "NewTelegramNotifier offline_lib empty_TelegramConfig
       = (None, Some (NotificationError ''telegram'' ''bot token is required'' None))"
    by (simp add: NewTelegramNotifier_def empty_TelegramConfig_def)
  have e: "notifiers (NewManager :: unit Manager) ''slack'' = None"
          "notifiers (NewManager :: unit Manager) ''telegram'' = None"
    by (simp_all add: NewManager_def)
  show ?thesis
    using Register_nil_pointer
      [of "NewManager :: unit Manager" "slack_notifier slack_test" offline_lib] p t e
    by (simp add: nil_notifier_error_def NewManager_def)
qed

text \<open>
  C3. When a provider \<open>q\<close> is registered under the name of \<open>n\<close>, \<^verbatim>\<open>Register(n)\<close> returns
  the error "notifier with name ... already registered" (the spec's
  DuplicateProviderError) and leaves the registry as it was: the same map, the name still
  bound to \<open>q\<close>, the same number of entries; when no write lock was held at entry, the
  whole manager is unchanged.
\<close>

theorem Register_duplicate:
  "notifiers m (Name n) = Some q \<Longrightarrow>
     fst (Register m (Some n)) = Some (already_registered_error (Name n))
     \<and> notifiers (snd (Register m (Some n))) = notifiers m
     \<and> notifiers (snd (Register m (Some n))) (Name n) = Some q
     \<and> card (dom (notifiers (snd (Register m (Some n))))) = card (dom (notifiers m))
     \<and> (\<not> writer (mu m) \<longrightarrow> snd (Register m (Some n)) = m)"
  by (simp add: Register_def Let_def Unlock_Lock_free)

theorem Register_duplicate_witness:
  "notifiers one_mock (Name (mock_notifier 1 ''test'')) = Some (mock_notifier 0 ''test'')
   \<and> fst (Register one_mock (Some (mock_notifier 1 ''test'')))
       = Some (ErrorString ''notifier with name test already registered'')
   \<and> notifiers (snd (Register one_mock (Some (mock_notifier 1 ''test'')))) ''test''
       = Some (mock_notifier 0 ''test'')
   \<and> card (dom (notifiers (snd (Register one_mock (Some (mock_notifier 1 ''test'')))))) = 1
   \<and> snd (Register one_mock (Some (mock_notifier 1 ''test''))) = one_mock"
proof -
  have h: "notifiers one_mock (Name (mock_notifier 1 ''test'')) = Some (mock_notifier 0 ''test'')"
    by (simp add: one_mock_notifiers)
  have w: "\<not> writer (mu one_mock)"
    by (simp add: one_mock_mu unlocked_def)
  show ?thesis
    using Register_duplicate [OF h] h w
    by (simp add: already_registered_error_def one_mock_notifiers)
qed

section \<open>Removal\<close>

text \<open>
  C5. The claim is that, for every state of the registry, \<^verbatim>\<open>Register(p)\<close> followed by
  \<^verbatim>\<open>Unregister\<close> of the name of \<open>p\<close> restores the state before. That fails when the name
  is already registered: the registration is refused, and the removal deletes the provider
  that was there.
\<close>

theorem Register_Unregister_not_restored:
  "fst (Register one_mock (Some (mock_notifier 1 ''test'')))
     = Some (ErrorString ''notifier with name test already registered'')
   \<and> notifiers one_mock ''test'' = Some (mock_notifier 0 ''test'')
   \<and> notifiers (Unregister (snd (Register one_mock (Some (mock_notifier 1 ''test''))))
                  (Name (mock_notifier 1 ''test''))) ''test'' = None
   \<and> notifiers (Unregister (snd (Register one_mock (Some (mock_notifier 1 ''test''))))
                  (Name (mock_notifier 1 ''test'')))
       \<noteq> notifiers one_mock"
proof -
  have 1: "fst (Register one_mock (Some (mock_notifier 1 ''test'')))
     = Some (ErrorString ''notifier with name test already registered'')"
    by (simp add: Register_def Let_def one_mock_notifiers already_registered_error_def)
  have 2: "notifiers one_mock ''test'' = Some (mock_notifier 0 ''test'')"
    by (simp add: one_mock_notifiers)
  have 3: "notifiers (Unregister (snd (Register one_mock (Some (mock_notifier 1 ''test''))))
                  (Name (mock_notifier 1 ''test''))) ''test'' = None"
    by simp
  from 2 3 have "notifiers (Unregister (snd (Register one_mock (Some (mock_notifier 1 ''test''))))
                  (Name (mock_notifier 1 ''test'')))
       \<noteq> notifiers one_mock"
    by (metis option.distinct(1))
  with 1 2 3 show ?thesis by blast
qed

text \<open>
  C5, amended. \<^verbatim>\<open>Unregister\<close> returns no error (it has none to return) and is idempotent:
  on a name that is absent it leaves the registry and what \<^verbatim>\<open>List\<close> returns unchanged, and
  a second removal of the same name changes nothing. After a \<^verbatim>\<open>Register(p)\<close> that succeeds,
  \<^verbatim>\<open>Unregister\<close> of the name of \<open>p\<close> restores the registry (the whole manager, when no
  write lock was held at entry). After \<^verbatim>\<open>Register(p)\<close> and \<^verbatim>\<open>Unregister\<close> of its name,
  whatever the registration returned, the registry is the one before without that name:
  \<^verbatim>\<open>Get\<close> reports the name absent and \<^verbatim>\<open>List\<close> does not contain it.
\<close>

theorem Unregister_idempotent_total:
  "(notifiers m nm = None \<longrightarrow>
      notifiers (Unregister m nm) = notifiers m
      \<and> fst (List (Unregister m nm) ks) = fst (List m ks))
   \<and> Unregister (Unregister m nm) nm = Unregister m nm
   \<and> (fst (Register m (Some p)) = None \<longrightarrow>
        notifiers (Unregister (snd (Register m (Some p))) (Name p)) = notifiers m
        \<and> (\<not> writer (mu m) \<longrightarrow> Unregister (snd (Register m (Some p))) (Name p) = m))
   \<and> notifiers (Unregister (snd (Register m (Some p))) (Name p))
       = (notifiers m)(Name p := None)
   \<and> fst (Get (Unregister (snd (Register m (Some p))) (Name p)) (Name p)) = None
   \<and> Name p \<notin> set (fst (List (Unregister (snd (Register m (Some p))) (Name p)) ks'))"
proof -
  have a: "notifiers m nm = None \<Longrightarrow> (notifiers m)(nm := None) = notifiers m"
    by (rule ext) simp
  have g: "notifiers (Unregister (snd (Register m (Some p))) (Name p))
       = (notifiers m)(Name p := None)"
    by (simp add: Register_def Let_def)
  have b: "fst (Register m (Some p)) = None \<Longrightarrow>
      notifiers (Unregister (snd (Register m (Some p))) (Name p)) = notifiers m"
    using Register_ok_notifiers [of m p] by (intro ext) simp
  show ?thesis
    using a b g Unregister_Register_free [of m p]
    by (simp add: List_names Unregister_twice Get_eq)
qed

theorem Unregister_idempotent_total_witness:
  "notifiers one_mock ''other'' = None
   \<and> notifiers (Unregister one_mock ''other'') = notifiers one_mock
   \<and> fst (List (Unregister one_mock ''other'') [''test'']) = [''test'']
   \<and> Unregister (Unregister one_mock ''test'') ''test'' = Unregister one_mock ''test''
   \<and> fst (Register one_mock (Some (mock_notifier 1 ''second''))) = None
   \<and> \<not> writer (mu one_mock)
   \<and> Unregister (snd (Register one_mock (Some (mock_notifier 1 ''second'')))) ''second'' = one_mock
   \<and> fst (Get (Unregister (snd (Register one_mock (Some (mock_notifier 1 ''second'')))) ''second'')
           ''second'') = None
   \<and> fst (List (Unregister (snd (Register one_mock (Some (mock_notifier 1 ''second'')))) ''second'')
           [''second'', ''test'']) = [''test'']"
proof -
  have a: "notifiers one_mock ''other'' = None"
    by (simp add: one_mock_notifiers)
  have r: "fst (Register one_mock (Some (mock_notifier 1 ''second''))) = None"
    by (simp add: Register_ok_iff one_mock_notifiers)
  have w: "\<not> writer (mu one_mock)"
    by (simp add: one_mock_mu unlocked_def)
  have l: "fst (List one_mock [''second'', ''test'']) = [''test'']"
          "fst (List one_mock [''test'']) = [''test'']"
    by (simp_all add: List_names one_mock_notifiers)
  show ?thesis
    using Unregister_idempotent_total
      [of one_mock "''other''" "[''test'']" "mock_notifier 1 ''second''" "[''second'', ''test'']"]
      Unregister_twice [of one_mock "''test''"] a r w l
    by (simp add: Get_eq one_mock_notifiers)
qed

section \<open>Synchronous broadcast: one call per provider\<close>

text \<open>
  C2. When \<open>ks\<close> is an order in which Go may range over the registry, \<^verbatim>\<open>Broadcast\<close> and
  \<^verbatim>\<open>BroadcastWithOptions\<close> make exactly one call per registered provider, in that order,
  whatever earlier calls returned: the calls added to the log are those of \<open>sent_in_order\<close>,
  each the send of the provider registered under its key, run in the outside state the
  call before left, and the outside state returned is the one the last call left. The
  errors returned are those of the failed calls, in order, each tagged with the key of the
  provider whose send returned it; their number is the number of failed calls, and the
  result is empty exactly when no call failed. When the providers that fail are exactly
  those of a set \<open>F\<close> of registered names (in every outside state the sends can lead to),
  the number of errors is the size of \<open>F\<close>.
\<close>

theorem Broadcast_every_provider_once:
  assumes "range_order (notifiers m) ks"
  shows "(\<exists>new. calls (snd (snd (Broadcast m ks c message e))) = calls e @ new
          \<and> sent_in_order (notifiers m) (\<lambda>nt. Send nt c message) ks (world e) new
               (world (snd (snd (Broadcast m ks c message e))))
          \<and> map callee new = ks
          \<and> mset (map callee new) = mset_set (dom (notifiers m))
          \<and> fst (Broadcast m ks c message e) = call_errors new
          \<and> length (fst (Broadcast m ks c message e))
              = length (filter (\<lambda>cl. outcome cl \<noteq> None) new)
          \<and> (fst (Broadcast m ks c message e) = [] \<longleftrightarrow> (\<forall>cl\<in>set new. outcome cl = None)))
       \<and> (\<forall>I F. fail_exactly (notifiers m) (\<lambda>nt. Send nt c message) I F \<and> I (world e)
              \<longrightarrow> length (fst (Broadcast m ks c message e)) = card F)
       \<and> (\<exists>new. calls (snd (snd (BroadcastWithOptions m ks c msg e))) = calls e @ new
          \<and> sent_in_order (notifiers m) (\<lambda>nt. SendWithOptions nt c msg) ks (world e) new
               (world (snd (snd (BroadcastWithOptions m ks c msg e))))
          \<and> map callee new = ks
          \<and> mset (map callee new) = mset_set (dom (notifiers m))
          \<and> fst (BroadcastWithOptions m ks c msg e) = call_errors new
          \<and> length (fst (BroadcastWithOptions m ks c msg e))
              = length (filter (\<lambda>cl. outcome cl \<noteq> None) new)
          \<and> (fst (BroadcastWithOptions m ks c msg e) = []
                \<longleftrightarrow> (\<forall>cl\<in>set new. outcome cl = None)))
       \<and> (\<forall>I F. fail_exactly (notifiers m) (\<lambda>nt. SendWithOptions nt c msg) I F \<and> I (world e)
              \<longrightarrow> length (fst (BroadcastWithOptions m ks c msg e)) = card F)"
proof -
  have ms: "mset ks = mset_set (dom (notifiers m))"
    using assms mset_set_set [of ks] by (simp add: range_order_def)
  from sends_loop_registry_all [OF assms, of "mu (RLock m)" "\<lambda>nt. Send nt c message" e]
  have 1: "\<exists>new. calls (snd (snd (Broadcast m ks c message e))) = calls e @ new
          \<and> sent_in_order (notifiers m) (\<lambda>nt. Send nt c message) ks (world e) new
               (world (snd (snd (Broadcast m ks c message e))))
          \<and> map callee new = ks
          \<and> mset (map callee new) = mset_set (dom (notifiers m))
          \<and> fst (Broadcast m ks c message e) = call_errors new
          \<and> length (fst (Broadcast m ks c message e))
              = length (filter (\<lambda>cl. outcome cl \<noteq> None) new)
          \<and> (fst (Broadcast m ks c message e) = [] \<longleftrightarrow> (\<forall>cl\<in>set new. outcome cl = None))"
    unfolding Broadcast_sends fst_conv snd_conv
    by (elim exE conjE, intro exI conjI)
       (simp_all add: ms [symmetric] length_call_errors call_errors_Nil_iff)
  from sends_loop_registry_all [OF assms, of "mu (RLock m)" "\<lambda>nt. SendWithOptions nt c msg" e]
  have 2: "\<exists>new. calls (snd (snd (BroadcastWithOptions m ks c msg e))) = calls e @ new
          \<and> sent_in_order (notifiers m) (\<lambda>nt. SendWithOptions nt c msg) ks (world e) new
               (world (snd (snd (BroadcastWithOptions m ks c msg e))))
          \<and> map callee new = ks
          \<and> mset (map callee new) = mset_set (dom (notifiers m))
          \<and> fst (BroadcastWithOptions m ks c msg e) = call_errors new
          \<and> length (fst (BroadcastWithOptions m ks c msg e))
              = length (filter (\<lambda>cl. outcome cl \<noteq> None) new)
          \<and> (fst (BroadcastWithOptions m ks c msg e) = []
                \<longleftrightarrow> (\<forall>cl\<in>set new. outcome cl = None))"
    unfolding BroadcastWithOptions_sends fst_conv snd_conv
    by (elim exE conjE, intro exI conjI)
       (simp_all add: ms [symmetric] length_call_errors call_errors_Nil_iff)
  have 3: "\<forall>I F. fail_exactly (notifiers m) (\<lambda>nt. Send nt c message) I F \<and> I (world e)
              \<longrightarrow> length (fst (Broadcast m ks c message e)) = card F"
    unfolding Broadcast_sends fst_conv
    using sends_loop_registry_failures [OF assms] by blast
  have 4: "\<forall>I F. fail_exactly (notifiers m) (\<lambda>nt. SendWithOptions nt c msg) I F \<and> I (world e)
              \<longrightarrow> length (fst (BroadcastWithOptions m ks c msg e)) = card F"
    unfolding BroadcastWithOptions_sends fst_conv
    using sends_loop_registry_failures [OF assms] by blast
  from 1 3 2 4 show ?thesis by blast
qed

theorem Broadcast_every_provider_once_witness:
  "range_order (notifiers two_mocks) [''test2'', ''test1'']
   \<and> fail_exactly (notifiers two_mocks) (\<lambda>nt. Send nt Background ''hi'') configured {''test2''}
   \<and> configured (world env0)
   \<and> sent_in_order (notifiers two_mocks) (\<lambda>nt. Send nt Background ''hi'') [''test2'', ''test1'']
        (world env0)
        (calls (snd (snd (Broadcast two_mocks [''test2'', ''test1''] Background ''hi'' env0))))
        (world (snd (snd (Broadcast two_mocks [''test2'', ''test1''] Background ''hi'' env0))))
   \<and> calls (snd (snd (Broadcast two_mocks [''test2'', ''test1''] Background ''hi'' env0)))
       = [\<lparr>callee = ''test2'',
           outcome = Some (NotificationError ''test2'' ''mock error'' None),
           lock_at_call = \<lparr>readers = 1, writer = False\<rparr>\<rparr>,
          \<lparr>callee = ''test1'', outcome = None,
           lock_at_call = \<lparr>readers = 1, writer = False\<rparr>\<rparr>]
   \<and> sendCalled
         (world (snd (snd (Broadcast two_mocks [''test2'', ''test1''] Background ''hi'' env0))) 0)
   \<and> sendCalled
         (world (snd (snd (Broadcast two_mocks [''test2'', ''test1''] Background ''hi'' env0))) 1)
   \<and> lastMessage
         (world (snd (snd (Broadcast two_mocks [''test2'', ''test1''] Background ''hi'' env0))) 0)
       = ''hi''
   \<and> fst (Broadcast two_mocks [''test2'', ''test1''] Background ''hi'' env0)
       = [WrapError ''test2: test2 notification error: mock error''
            (NotificationError ''test2'' ''mock error'' None)]
   \<and> length (fst (Broadcast two_mocks [''test2'', ''test1''] Background ''hi'' env0))
       = card {''test2''}
   \<and> fail_exactly (notifiers two_mocks)
         (\<lambda>nt. SendWithOptions nt Background (text_message ''hi'' [])) configured {''test2''}
   \<and> length (fst (BroadcastWithOptions two_mocks [''test2'', ''test1''] Background
                     (text_message ''hi'' []) env0))
       = card {''test2''}"
proof -
  let ?B = "Broadcast two_mocks [''test2'', ''test1''] Background ''hi'' env0"
  note bc = Broadcast_every_provider_once
      [OF two_mocks_range, of Background "''hi''" env0 "text_message ''hi'' []"]
  have "calls env0 = []" by (simp add: env0_def)
  with bc have ordered:
    "sent_in_order (notifiers two_mocks) (\<lambda>nt. Send nt Background ''hi'') [''test2'', ''test1'']
        (world env0) (calls (snd (snd ?B))) (world (snd (snd ?B)))"
    by auto
  have opts: "length (fst (BroadcastWithOptions two_mocks [''test2'', ''test1''] Background
                  (text_message ''hi'' []) env0)) = card {''test2''}"
    using bc two_mocks_fail_exactly_opts configured_store0 by blast
  have sync: "length (fst ?B) = card {''test2''}"
    using bc two_mocks_fail_exactly configured_store0 by blast
  have w: "sendCalled (world (snd (snd ?B)) 0)" "sendCalled (world (snd (snd ?B)) 1)"
    "lastMessage (world (snd (snd ?B)) 0) = ''hi''"
    by (simp_all add: Broadcast_two_mocks_world)
  show ?thesis
    using ordered opts sync w two_mocks_range two_mocks_fail_exactly
      two_mocks_fail_exactly_opts configured_store0 Broadcast_two_mocks Broadcast_two_mocks_log
    by blast
qed

section \<open>Targeted send\<close>

text \<open>
  C4. When no provider is registered under the name, \<^verbatim>\<open>Send\<close> and \<^verbatim>\<open>SendWithOptions\<close> of
  the manager return the error "notifier ... not found" (the spec's
  ProviderNotFoundError) and leave the outside state and the log of calls as they were: no
  send is made. Otherwise they make one call, the simple send or the send with options of
  the provider found, and return its result as it is, a success or the provider's own
  error. The manager is unchanged in both cases.
\<close>

theorem Manager_Send_lookup:
  "(notifiers m provider = None \<longrightarrow>
      Manager_Send m c provider message e = (Some (not_found_error provider), m, e)
      \<and> Manager_SendWithOptions m c provider msg e = (Some (not_found_error provider), m, e))
   \<and> (notifiers m provider = Some nt \<longrightarrow>
      Manager_Send m c provider message e =
        (fst (Send nt c message (world e)), m,
         \<lparr>world = snd (Send nt c message (world e)),
          calls = calls e @ [\<lparr>callee = provider, outcome = fst (Send nt c message (world e)),
                               lock_at_call = mu m\<rparr>]\<rparr>)
      \<and> Manager_SendWithOptions m c provider msg e =
        (fst (SendWithOptions nt c msg (world e)), m,
         \<lparr>world = snd (SendWithOptions nt c msg (world e)),
          calls = calls e @ [\<lparr>callee = provider,
                               outcome = fst (SendWithOptions nt c msg (world e)),
                               lock_at_call = mu m\<rparr>]\<rparr>))"
  by (simp add: Manager_Send_def Manager_SendWithOptions_def Get_eq invoke_def
      split: prod.splits)

theorem Manager_Send_lookup_witness:
  "notifiers two_mocks ''missing'' = None
   \<and> Manager_Send two_mocks Background ''missing'' ''hi'' env0
       = (Some (ErrorString ''notifier missing not found''), two_mocks, env0)
   \<and> notifiers two_mocks ''test2'' = Some (mock_notifier 1 ''test2'')
   \<and> fst (Manager_Send two_mocks Background ''test2'' ''hi'' env0)
       = Some (NotificationError ''test2'' ''mock error'' None)
   \<and> fst (Manager_Send two_mocks Background ''test1'' ''hi'' env0) = None
   \<and> lastMessage (world (snd (snd (Manager_Send two_mocks Background ''test1'' ''hi'' env0))) 0)
       = ''hi''"
proof -
  have a: "notifiers two_mocks ''missing'' = None"
    and b: "notifiers two_mocks ''test2'' = Some (mock_notifier 1 ''test2'')"
    and c: "notifiers two_mocks ''test1'' = Some (mock_notifier 0 ''test1'')"
    by (simp_all add: two_mocks_notifiers)
  show ?thesis
    using Manager_Send_lookup
        [where m = two_mocks and provider = "''missing''" and c = Background
           and message = "''hi''" and e = env0]
      Manager_Send_lookup
        [where m = two_mocks and provider = "''test2''" and c = Background
           and message = "''hi''" and e = env0 and nt = "mock_notifier 1 ''test2''"]
      Manager_Send_lookup
        [where m = two_mocks and provider = "''test1''" and c = Background
           and message = "''hi''" and e = env0 and nt = "mock_notifier 0 ''test1''"]
      a b c
    by (simp add: not_found_error_def mock_notifier_def Mock_Send_def env0_def store0_def
        NewMockNotifier_def)
qed


section \<open>Concurrent broadcast: one result per provider\<close>

text \<open>
  C1. Let \<open>ks\<close> and \<open>ks'\<close> be orders in which Go may range over the registry (for the copy
  and for starting the goroutines), and let \<open>s\<close> be any state that \<^verbatim>\<open>BroadcastAsync\<close> or
  \<^verbatim>\<open>BroadcastAsyncWithOptions\<close> can reach, under any interleaving of the goroutines and of
  the caller's loop over the channel. Then nothing has panicked; the results put on the
  channel so far name registered providers, none twice, and each has its success flag set
  exactly when it carries no error; once the channel is closed, exactly one result per
  registered provider has been put on it; and when the caller's loop has ended, the caller
  has received exactly as many results as there are providers, their names being the
  registered names, each once. Until the loop has ended some step is always possible, every
  step lowers \<open>steps_left\<close>, and the end of the loop can be reached: the stream does close.
  Each send is taken to return, with an error or without.
\<close>

theorem BroadcastAsync_one_result_per_provider:
  assumes "range_order (notifiers m) ks" and "range_order (notifiers m) ks'"
    and "s0 = fst (BroadcastAsync m ks ks' c message w)
         \<or> s0 = fst (BroadcastAsyncWithOptions m ks ks' c msg w)"
    and "async_step\<^sup>*\<^sup>* s0 s"
  shows "\<not> panicked s
    \<and> (chan_closed s \<longrightarrow>
          length (received s @ chan s) = card (dom (notifiers m))
          \<and> mset (map Provider (received s @ chan s)) = mset_set (dom (notifiers m)))
    \<and> (range_ended s \<longrightarrow>
          length (received s) = card (dom (notifiers m))
          \<and> mset (map Provider (received s)) = mset_set (dom (notifiers m)))
    \<and> mset (map Provider (received s @ chan s)) \<subseteq># mset_set (dom (notifiers m))
    \<and> (\<forall>r\<in>set (received s @ chan s). Success r = (Error r = None))
    \<and> (\<not> range_ended s \<longrightarrow> (\<exists>s'. async_step s s'))
    \<and> (\<forall>s'. async_step s s' \<longrightarrow> steps_left s' < steps_left s)
    \<and> (\<exists>s'. async_step\<^sup>*\<^sup>* s s' \<and> range_ended s')"
proof -
  from assms(3) obtain f where "s0 = async_start f (notifiers m) ks' w"
    using BroadcastAsync_eq [OF assms(1)] BroadcastAsyncWithOptions_eq [OF assms(1)]
    by (metis fst_conv)
  with assms(4) have "async_step\<^sup>*\<^sup>* (async_start f (notifiers m) ks' w) s" by simp
  from async_reached [OF assms(2) this] show ?thesis .
qed

theorem BroadcastAsync_one_result_per_provider_witness:
  "range_order (notifiers two_mocks) [''test2'', ''test1'']
   \<and> async_step\<^sup>*\<^sup>* two_mocks_start (run 13 two_mocks_start)
   \<and> range_ended (run 13 two_mocks_start)
   \<and> \<not> panicked (run 13 two_mocks_start)
   \<and> received (run 13 two_mocks_start)
       = [\<lparr>Provider = ''test2'', Success = False,
           Error = Some (NotificationError ''test2'' ''mock error'' None)\<rparr>,
          \<lparr>Provider = ''test1'', Success = True, Error = None\<rparr>]
   \<and> length (received (run 13 two_mocks_start)) = card (dom (notifiers two_mocks))
   \<and> mset (map Provider (received (run 13 two_mocks_start)))
       = mset_set (dom (notifiers two_mocks))"
proof -
  have r: "async_step\<^sup>*\<^sup>* two_mocks_start (run 13 two_mocks_start)"
    by (rule run_reachable)
  have s0: "two_mocks_start
      = fst (BroadcastAsync two_mocks [''test2'', ''test1''] [''test2'', ''test1''] Background
               ''hi'' store0)
      \<or> two_mocks_start
      = fst (BroadcastAsyncWithOptions two_mocks [''test2'', ''test1''] [''test2'', ''test1'']
               Background (text_message ''hi'' []) store0)"
    by (simp add: two_mocks_start_def)
  show ?thesis
    using BroadcastAsync_one_result_per_provider [OF two_mocks_range two_mocks_range s0 r]
      two_mocks_range r two_mocks_run
    by simp
qed

section \<open>The empty registry\<close>

text \<open>
  C10. On a manager with no provider, \<^verbatim>\<open>Broadcast\<close> (and \<^verbatim>\<open>BroadcastWithOptions\<close>) returns
  the empty list of errors and makes no call: the outside state and the log are as
  before. In every state \<^verbatim>\<open>BroadcastAsync\<close> can reach, nothing has been received and the
  channel holds nothing; a step is possible until the caller's loop has ended, every step
  lowers \<open>steps_left\<close>, and a state is reachable in which the channel is closed and the loop
  has ended with nothing received.
\<close>

theorem Broadcast_empty_registry:
  assumes "notifiers m = Map.empty"
  shows "Broadcast m ks c message e = ([], m, e)
    \<and> BroadcastWithOptions m ks c msg e = ([], m, e)
    \<and> (\<forall>s. async_step\<^sup>*\<^sup>* (fst (BroadcastAsync m ks ks' c message w)) s \<longrightarrow>
          received s = [] \<and> chan s = [] \<and> \<not> panicked s
          \<and> (\<not> range_ended s \<longrightarrow> (\<exists>s'. async_step s s'))
          \<and> (\<forall>s'. async_step s s' \<longrightarrow> steps_left s' < steps_left s)
          \<and> (\<exists>s'. async_step\<^sup>*\<^sup>* s s' \<and> range_ended s' \<and> chan_closed s' \<and> received s' = []))"
proof -
  have b: "Broadcast m ks c message e = ([], m, e)"
    "BroadcastWithOptions m ks c msg e = ([], m, e)"
    using assms by (simp_all add: Broadcast_def BroadcastWithOptions_def Let_def)
  have a: "received s = [] \<and> chan s = [] \<and> \<not> panicked s
          \<and> (\<not> range_ended s \<longrightarrow> (\<exists>s'. async_step s s'))
          \<and> (\<forall>s'. async_step s s' \<longrightarrow> steps_left s' < steps_left s)
          \<and> (\<exists>s'. async_step\<^sup>*\<^sup>* s s' \<and> range_ended s' \<and> chan_closed s' \<and> received s' = [])"
    if reach: "async_step\<^sup>*\<^sup>* (fst (BroadcastAsync m ks ks' c message w)) s" for s
  proof -
    have "fst (BroadcastAsync m ks ks' c message w)
        = async_start (\<lambda>nt. Send nt c message) Map.empty ks' w"
      using assms by (simp add: BroadcastAsync_def Let_def)
    with reach have inv: "async_inv [] s"
      using async_inv_reachable [OF _ async_inv_start_empty] by metis
    from async_completes [OF inv] obtain s' where
      s': "async_step\<^sup>*\<^sup>* s s'" "range_ended s'" by blast
    have inv': "async_inv [] s'" using s'(1) inv by (rule async_inv_reachable)
    have "chan_closed s'" using inv' s'(2) unfolding async_inv_def by blast
    with s' async_inv_empty [OF inv'] have
      "\<exists>s'. async_step\<^sup>*\<^sup>* s s' \<and> range_ended s' \<and> chan_closed s' \<and> received s' = []"
      by blast
    moreover have "\<not> panicked s" using inv by (simp add: async_inv_def)
    ultimately show ?thesis
      using async_inv_empty [OF inv] async_progress [OF inv] async_step_decreases [of s]
      by blast
  qed
  from b a show ?thesis by blast
qed

theorem Broadcast_empty_registry_witness:
  "notifiers (NewManager :: mock_store Manager) = Map.empty
   \<and> Broadcast NewManager [] Background ''hi'' env0 = ([], NewManager, env0)
   \<and> async_step\<^sup>*\<^sup>* (fst (BroadcastAsync NewManager [] [] Background ''hi'' store0))
        (run 3 (fst (BroadcastAsync NewManager [] [] Background ''hi'' store0)))
   \<and> range_ended (run 3 (fst (BroadcastAsync NewManager [] [] Background ''hi'' store0)))
   \<and> chan_closed (run 3 (fst (BroadcastAsync NewManager [] [] Background ''hi'' store0)))
   \<and> received (run 3 (fst (BroadcastAsync NewManager [] [] Background ''hi'' store0))) = []"
proof -
  let ?s0 = "fst (BroadcastAsync NewManager [] [] Background ''hi'' store0)"
  have e: "notifiers (NewManager :: mock_store Manager) = Map.empty"
    by (simp add: NewManager_def)
  have r: "async_step\<^sup>*\<^sup>* ?s0 (run 3 ?s0)"
    by (rule run_reachable)
  have f: "range_ended (run 3 ?s0) \<and> chan_closed (run 3 ?s0)"
    by (simp add: BroadcastAsync_def Let_def NewManager_def async_start_def eval_nat_numeral
        sched_def)
  show ?thesis
    using Broadcast_empty_registry
      [OF e, of "[]" Background "''hi''" env0 _ "[]" store0] e r f
    by blast
qed

section \<open>What leaves the registry alone\<close>

text \<open>
  C9. \<^verbatim>\<open>Get\<close>, \<^verbatim>\<open>List\<close>, \<^verbatim>\<open>Send\<close>, \<^verbatim>\<open>SendWithOptions\<close>, \<^verbatim>\<open>Broadcast\<close>,
  \<^verbatim>\<open>BroadcastWithOptions\<close>, \<^verbatim>\<open>BroadcastAsync\<close> and \<^verbatim>\<open>BroadcastAsyncWithOptions\<close> return
  the manager with the registry they found, whatever they return otherwise; the manager as
  a whole is the one they were given, its lock released again. The goroutines of the
  concurrent broadcasts work on the copy and hold no reference to the manager. A provider's
  send acts on the outside state only.
\<close>

theorem reads_and_sends_keep_registry:
  "notifiers (snd (Get m k)) = notifiers m
   \<and> notifiers (snd (List m ks)) = notifiers m
   \<and> notifiers (fst (snd (Manager_Send m c k message e))) = notifiers m
   \<and> notifiers (fst (snd (Manager_SendWithOptions m c k msg e))) = notifiers m
   \<and> notifiers (fst (snd (Broadcast m ks c message e))) = notifiers m
   \<and> notifiers (fst (snd (BroadcastWithOptions m ks c msg e))) = notifiers m
   \<and> notifiers (snd (BroadcastAsync m ks ks' c message w)) = notifiers m
   \<and> notifiers (snd (BroadcastAsyncWithOptions m ks ks' c msg w)) = notifiers m
   \<and> snd (Get m k) = m
   \<and> snd (List m ks) = m
   \<and> fst (snd (Manager_Send m c k message e)) = m
   \<and> fst (snd (Manager_SendWithOptions m c k msg e)) = m
   \<and> fst (snd (Broadcast m ks c message e)) = m
   \<and> fst (snd (BroadcastWithOptions m ks c msg e)) = m
   \<and> snd (BroadcastAsync m ks ks' c message w) = m
   \<and> snd (BroadcastAsyncWithOptions m ks ks' c msg w) = m"
  by (simp add: Get_eq List_def Let_def Manager_Send_def Manager_SendWithOptions_def
      Broadcast_sends BroadcastWithOptions_sends BroadcastAsync_def
      BroadcastAsyncWithOptions_def split: option.splits prod.splits)

theorem reads_and_sends_keep_registry_witness:
  "notifiers (snd (Get two_mocks ''test1'')) ''test2'' = Some (mock_notifier 1 ''test2'')
   \<and> notifiers (fst (snd (Manager_Send two_mocks Background ''missing'' ''hi'' env0)))
       = notifiers two_mocks
   \<and> fst (Manager_Send two_mocks Background ''missing'' ''hi'' env0)
       = Some (ErrorString ''notifier missing not found'')
   \<and> notifiers (fst (snd (Broadcast two_mocks [''test2'', ''test1''] Background ''hi'' env0)))
       = [''test1'' \<mapsto> mock_notifier 0 ''test1'', ''test2'' \<mapsto> mock_notifier 1 ''test2'']
   \<and> fst (snd (Broadcast two_mocks [''test2'', ''test1''] Background ''hi'' env0)) = two_mocks"
  using reads_and_sends_keep_registry
    [of two_mocks "''test1''" "[''test2'', ''test1'']" Background "''hi''" env0]
    reads_and_sends_keep_registry
    [of two_mocks "''missing''" "[''test2'', ''test1'']" Background "''hi''" env0]
  by (simp add: two_mocks_notifiers Manager_Send_def Get_eq not_found_error_def)

section \<open>The lock during a send\<close>

text \<open>
  C6. The claim is that no provider is called while the registry lock is held. The
  targeted send calls its provider with the lock free, and the concurrent broadcasts
  release it before they start a goroutine. \<^verbatim>\<open>Broadcast\<close> and \<^verbatim>\<open>BroadcastWithOptions\<close>
  do not: they take the read lock and release it by \<^verbatim>\<open>defer\<close>, so on a manager whose
  lock is free every call of their loops is made with one read lock held.
\<close>

theorem Broadcast_calls_under_read_lock:
  assumes "range_order (notifiers m) ks" and "mu m = unlocked"
  shows "(\<exists>new. calls (snd (snd (Broadcast m ks c message e))) = calls e @ new
            \<and> map callee new = ks
            \<and> (\<forall>cl\<in>set new. lock_at_call cl = \<lparr>readers = 1, writer = False\<rparr>
                   \<and> is_held (lock_at_call cl)))
    \<and> (\<exists>new. calls (snd (snd (BroadcastWithOptions m ks c msg e))) = calls e @ new
            \<and> map callee new = ks
            \<and> (\<forall>cl\<in>set new. lock_at_call cl = \<lparr>readers = 1, writer = False\<rparr>
                   \<and> is_held (lock_at_call cl)))
    \<and> (\<forall>k nt. notifiers m k = Some nt \<longrightarrow>
          (\<exists>cl. calls (snd (snd (Manager_Send m c k message e))) = calls e @ [cl]
             \<and> callee cl = k \<and> \<not> is_held (lock_at_call cl)))"
proof -
  have l: "mu (RLock m) = \<lparr>readers = 1, writer = False\<rparr>"
    using assms(2) by (simp add: RLock_def unlocked_def)
  have h: "is_held \<lparr>readers = 1, writer = False\<rparr>" by (simp add: is_held_def)
  from sends_loop_registry_calls [OF assms(1), of "mu (RLock m)" "\<lambda>nt. Send nt c message" e]
  have 1: "\<exists>new. calls (snd (snd (Broadcast m ks c message e))) = calls e @ new
            \<and> map callee new = ks
            \<and> (\<forall>cl\<in>set new. lock_at_call cl = \<lparr>readers = 1, writer = False\<rparr>
                   \<and> is_held (lock_at_call cl))"
    unfolding Broadcast_sends snd_conv l using h by auto
  from sends_loop_registry_calls
    [OF assms(1), of "mu (RLock m)" "\<lambda>nt. SendWithOptions nt c msg" e]
  have 2: "\<exists>new. calls (snd (snd (BroadcastWithOptions m ks c msg e))) = calls e @ new
            \<and> map callee new = ks
            \<and> (\<forall>cl\<in>set new. lock_at_call cl = \<lparr>readers = 1, writer = False\<rparr>
                   \<and> is_held (lock_at_call cl))"
    unfolding BroadcastWithOptions_sends snd_conv l using h by auto
  have 3: "\<forall>k nt. notifiers m k = Some nt \<longrightarrow>
          (\<exists>cl. calls (snd (snd (Manager_Send m c k message e))) = calls e @ [cl]
             \<and> callee cl = k \<and> \<not> is_held (lock_at_call cl))"
    using assms(2)
    by (simp add: Manager_Send_def Get_eq invoke_def is_held_def unlocked_def
        split: prod.splits)
  from 1 2 3 show ?thesis by blast
qed

theorem Broadcast_calls_under_read_lock_witness:
  "range_order (notifiers one_mock) [''test''] \<and> mu one_mock = unlocked
   \<and> calls (snd (snd (Broadcast one_mock [''test''] Background ''hi'' env1)))
       = [\<lparr>callee = ''test'', outcome = None,
           lock_at_call = \<lparr>readers = 1, writer = False\<rparr>\<rparr>]
   \<and> calls (snd (snd (Manager_Send one_mock Background ''test'' ''hi'' env1)))
       = [\<lparr>callee = ''test'', outcome = None,
           lock_at_call = \<lparr>readers = 0, writer = False\<rparr>\<rparr>]"
proof -
  have r: "range_order (notifiers one_mock) [''test'']"
    by (simp add: range_order_def one_mock_notifiers)
  show ?thesis
    using Broadcast_calls_under_read_lock [OF r one_mock_mu, of Background "''hi''" env1] r
    by (simp add: one_mock_mu Broadcast_def Let_def one_mock_notifiers invoke_def
        mock_notifier_def Mock_Send_def env1_def NewMockNotifier_def RLock_def unlocked_def
        Manager_Send_def Get_eq)
qed

section \<open>Messages without text\<close>

text \<open>
  C8. For a message whose text is empty, \<^verbatim>\<open>SendWithOptions\<close> of the Slack provider and of
  the Telegram provider return a \<^verbatim>\<open>NotificationError\<close> of the provider and leave the
  outside state untouched: nothing is posted. Telegram's says "message text is required";
  so does Slack's when the provider has a client, and without one the error is that the
  client is not initialized.
\<close>

theorem empty_text_is_rejected:
  assumes "Message.Text msg = []"
  shows "(\<exists>reason. Slack_SendWithOptions s c msg w
             = (Some (NotificationError ''slack'' reason None), w))
    \<and> (SlackNotifier.client s \<noteq> None \<longrightarrow>
          Slack_SendWithOptions s c msg w
            = (Some (NotificationError ''slack'' ''message text is required'' None), w))
    \<and> Telegram_SendWithOptions lib t c msg w
          = (Some (NotificationError ''telegram'' ''message text is required'' None), w)"
  using assms
  by (auto simp: Slack_SendWithOptions_def Telegram_SendWithOptions_def split: option.splits)

theorem empty_text_is_rejected_witness:
  "Message.Text (text_message [] ''#general'') = []
   \<and> SlackNotifier.client slack_test \<noteq> None
   \<and> Slack_SendWithOptions slack_test Background (text_message [] ''#general'') ()
       = (Some (NotificationError ''slack'' ''message text is required'' None), ())
   \<and> Telegram_SendWithOptions offline_lib telegram_test Background (text_message [] ''42'') ()
       = (Some (NotificationError ''telegram'' ''message text is required'' None), ())"
proof -
  have t: "Message.Text (text_message [] ''#general'') = []"
          "Message.Text (text_message [] ''42'') = []"
    by (simp_all add: text_message_def)
  have cl: "SlackNotifier.client slack_test \<noteq> None"
    by (simp add: slack_test_def)
  show ?thesis
    using empty_text_is_rejected [OF t(1), of slack_test Background "()"]
      empty_text_is_rejected [OF t(2), of _ _ _ offline_lib telegram_test] t cl
    by simp
qed


end
